theory Spec2Isabelle
  imports Complex_Main "HOL-Library.Signed_Division" "HOL-Library.Multiset"
begin

section \<open>Strings as the handlers use them\<close>

text \<open>
  A JavaScript string is modelled as a \<^typ>\<open>string\<close> whose characters are the code
  units from U+0000 to U+00FF. Among them the white space of \<open>trim\<close> and of the regular
  expression class \<open>\s\<close> is tab, line feed, vertical tab, form feed, carriage return,
  space and the no-break space U+00A0. The white space above U+00FF (U+1680, U+2000 to
  U+200A, U+2028, U+2029, U+202F, U+205F, U+3000, U+FEFF) has no character in this type.
\<close>

definition is_ws :: "char \<Rightarrow> bool" where
  "is_ws c =
     (c \<in> set [CHR 0x09, CHR 0x0A, CHR 0x0B, CHR 0x0C, CHR 0x0D, CHR '' '', CHR 0xA0])"

definition is_digit :: "char \<Rightarrow> bool" where
  "is_digit c = (c \<in> set ''0123456789'')"

definition trim :: "string \<Rightarrow> string" where
  "trim s = rev (dropWhile is_ws (rev (dropWhile is_ws s)))"

text \<open>\<open>str.split(sep)\<close> for a separator of one character, which is what every call passes
  (\<open>","\<close> and \<open>"-"\<close>): the result always has at least one part.\<close>

fun split :: "char \<Rightarrow> string \<Rightarrow> string list" where
  "split sep [] = [[]]"
| "split sep (c # cs) =
     (if c = sep then [] # split sep cs
      else (case split sep cs of p # ps \<Rightarrow> (c # p) # ps | [] \<Rightarrow> [[c]]))"

text \<open>\<open>str.split(sep, 2)\<close>: the first two parts at most.\<close>

definition split2 :: "char \<Rightarrow> string \<Rightarrow> string list" where
  "split2 sep s = take 2 (split sep s)"

text \<open>\<open>parts.join(sep)\<close> on strings.\<close>

fun join :: "string \<Rightarrow> string list \<Rightarrow> string" where
  "join sep [] = []"
| "join sep [p] = p"
| "join sep (p # q # ps) = p @ sep @ join sep (q # ps)"

text \<open>An element read out of range is \<open>undefined\<close>; a template literal prints it as the
  nine letters.\<close>

definition tpl :: "string list \<Rightarrow> nat \<Rightarrow> string" where
  "tpl xs i = (if i < length xs then xs ! i else ''undefined'')"

subsection \<open>The regular expressions\<close>

text \<open>
  Every regular expression of the handlers is a sequence of character classes, each with
  a repetition count, searched anywhere in the text. An atom is a class with the least
  and the greatest number of repetitions (\<open>None\<close>: unbounded). \<open>after\<close> lists the rests
  of the text that an atom can leave, \<open>rests\<close> those a whole sequence can leave, and a
  search succeeds when the sequence matches at some position.
\<close>

type_synonym atom = "(char \<Rightarrow> bool) \<times> nat \<times> nat option"

fun after :: "(char \<Rightarrow> bool) \<Rightarrow> nat \<Rightarrow> nat option \<Rightarrow> string \<Rightarrow> string list" where
  "after p lo hi [] = (if lo = 0 then [[]] else [])"
| "after p lo hi (c # cs) =
     (if lo = 0 then (c # cs) # [] else []) @
     (if hi = Some 0 \<or> \<not> p c then []
      else after p (lo - 1) (map_option (\<lambda>h. h - 1) hi) cs)"

fun rests :: "atom list \<Rightarrow> string \<Rightarrow> string list" where
  "rests [] s = [s]"
| "rests ((p, lo, hi) # as) s = concat (map (rests as) (after p lo hi s))"

fun tails :: "string \<Rightarrow> string list" where
  "tails [] = [[]]"
| "tails (c # cs) = (c # cs) # tails cs"

definition search :: "atom list \<Rightarrow> string \<Rightarrow> bool" where
  "search as s = (\<exists>t \<in> set (tails s). rests as t \<noteq> [])"

definition search_end :: "atom list \<Rightarrow> string \<Rightarrow> bool" where
  "search_end as s = (\<exists>t \<in> set (tails s). [] \<in> set (rests as t))"

definition one :: "(char \<Rightarrow> bool) \<Rightarrow> atom" where
  "one p = (p, 1, Some 1)"

definition lit :: "char \<Rightarrow> atom" where
  "lit c = one (\<lambda>d. d = c)"

definition lit_i :: "char \<Rightarrow> char \<Rightarrow> atom" where
  "lit_i c C = one (\<lambda>d. d = c \<or> d = C)"

definition digits :: "nat \<Rightarrow> atom" where
  "digits n = (is_digit, n, Some n)"

definition ws_star :: atom where
  "ws_star = (is_ws, 0, None)"

definition date_atoms :: "atom list" where
  "date_atoms = [digits 2, lit CHR ''/'', digits 2, lit CHR ''/'', digits 4]"

text \<open>\<open>/\d{2}\/\d{2}\/\d{4}\s*-\s*\d{2}\/\d{2}\/\d{4}/\<close>\<close>

definition dateRangeRegex :: "string \<Rightarrow> bool" where
  "dateRangeRegex = search (date_atoms @ [ws_star, lit CHR ''-'', ws_star] @ date_atoms)"

text \<open>\<open>/:\s*\d{2}\s*[AP]M/i\<close>\<close>

definition isTimeRow :: "string \<Rightarrow> bool" where
  "isTimeRow = search [lit CHR '':'', ws_star, digits 2, ws_star,
     one (\<lambda>d. d \<in> set ''APap''), lit_i CHR ''m'' CHR ''M'']"

text \<open>\<open>/,\s*\d+/\<close>\<close>

definition hasRoomNumber :: "string \<Rightarrow> bool" where
  "hasRoomNumber = search [lit CHR '','', ws_star, (is_digit, 1, None)]"

text \<open>\<open>/Schedule$/i\<close>\<close>

definition scheduleRegex :: "string \<Rightarrow> bool" where
  "scheduleRegex = search_end [lit_i CHR ''s'' CHR ''S'', lit_i CHR ''c'' CHR ''C'',
     lit_i CHR ''h'' CHR ''H'', lit_i CHR ''e'' CHR ''E'', lit_i CHR ''d'' CHR ''D'',
     lit_i CHR ''u'' CHR ''U'', lit_i CHR ''l'' CHR ''L'', lit_i CHR ''e'' CHR ''E'']"

text \<open>\<open>text.replace(/\s+/g, "")\<close>\<close>

definition strip_ws :: "string \<Rightarrow> string" where
  "strip_ws s = filter (\<lambda>c. \<not> is_ws c) s"

section \<open>Layout reconstruction\<close>

text \<open>
  An item of a page's text content is a text item, with its string and the offsets
  \<open>transform[4]\<close> (x) and \<open>transform[5]\<close> (baseline y), or a marked-content marker. The
  offsets are finite numbers, taken as reals; \<open>Math.round\<close> rounds a tie upwards.
\<close>

datatype item = TextItem (tx: real) (ty: real) (tstr: string) | TextMarkedContent

fun isTextItem :: "item \<Rightarrow> bool" where
  "isTextItem (TextItem x y s) = True"
| "isTextItem TextMarkedContent = False"

definition round_js :: "real \<Rightarrow> int" where
  "round_js y = \<lfloor>y + 1 / 2\<rfloor>"

text \<open>The keys of \<open>rowsMap\<close>, sorted by \<open>(a, b) => b - a\<close>.\<close>

definition rowKeys :: "item list \<Rightarrow> int list" where
  "rowKeys items =
     sort_key (\<lambda>k. - k) (remdups (map (\<lambda>f. round_js (ty f)) (filter isTextItem items)))"

text \<open>\<open>rowsMap[y]\<close>: the text items of one rounded baseline, in the order of the content.\<close>

definition rowsMap :: "item list \<Rightarrow> int \<Rightarrow> item list" where
  "rowsMap items y = filter (\<lambda>f. round_js (ty f) = y) (filter isTextItem items)"

text \<open>The cells of one key, each still with its x: sorted by \<open>(a, b) => a.x - b.x\<close> (the
  sort is stable), trimmed, the empty ones dropped.\<close>

definition rowCells :: "item list \<Rightarrow> int \<Rightarrow> (real \<times> string) list" where
  "rowCells items y =
     filter (\<lambda>c. snd c \<noteq> [])
       (map (\<lambda>f. (tx f, trim (tstr f))) (sort_key tx (rowsMap items y)))"

text \<open>The rows one page pushes, each still with its key; a row left without a cell is not
  pushed.\<close>

definition pageRowsXY :: "item list \<Rightarrow> (int \<times> (real \<times> string) list) list" where
  "pageRowsXY items =
     filter (\<lambda>r. snd r \<noteq> []) (map (\<lambda>y. (y, rowCells items y)) (rowKeys items))"

definition pageRows :: "item list \<Rightarrow> string list list" where
  "pageRows items = map (\<lambda>r. map snd (snd r)) (pageRowsXY items)"

text \<open>\<open>allRows\<close> after the loop over the pages, in page order.\<close>

definition allRows :: "item list list \<Rightarrow> string list list" where
  "allRows pages = concat (map pageRows pages)"

definition allRowsXY :: "item list list \<Rightarrow> (int \<times> (real \<times> string) list) list" where
  "allRowsXY pages = concat (map pageRowsXY pages)"

section \<open>Numbers and date-times\<close>

text \<open>
  The numbers that reach the date arithmetic are whole numbers, \<open>NaN\<close> or \<open>Infinity\<close>.
\<close>

datatype num_js = Num int | NaN | PosInf

text \<open>\<open>a < b\<close> on these numbers: a comparison with \<open>NaN\<close> is false.\<close>

fun lt_js :: "num_js \<Rightarrow> num_js \<Rightarrow> bool" where
  "lt_js (Num a) (Num b) = (a < b)"
| "lt_js (Num a) PosInf = True"
| "lt_js _ _ = False"

datatype error = Error | InvalidArgumentError | TypeError

text \<open>
  A \<open>DateTime\<close> of the date library, in the one zone the handlers use
  (\<open>America/New_York\<close>), is invalid or holds a civil date, counted in days from
  1970-01-01, and a wall-clock time, in milliseconds from midnight.
\<close>

datatype DateTime = InvalidDT | DT (dayNo: int) (msOfDay: int)

text \<open>\<open>dt.weekday\<close>: 1 is Monday and 7 is Sunday; 1970-01-01 was a Thursday.\<close>

fun weekday :: "DateTime \<Rightarrow> num_js" where
  "weekday InvalidDT = NaN"
| "weekday (DT d ms) = Num ((d + 3) mod 7 + 1)"

text \<open>
  What the handlers take from their environment: \<open>Number\<close> on a cell; the date library's
  \<open>DateTime.fromFormat(text, format, {zone: "America/New_York"})\<close>; what the library's
  \<open>plus\<close> does on a valid date-time with an amount of days that is not finite (it may
  throw); the civil days on which the zone's clocks go forward; the zone's offset from
  UTC, in minutes, at a civil date and time; and how \<open>join\<close> prints a property that a
  plain object inherits.
\<close>

record 'n host =
  Number :: "string \<Rightarrow> 'n"
  fromFormat :: "string \<Rightarrow> string \<Rightarrow> DateTime"
  plusNonFinite :: "DateTime \<Rightarrow> num_js \<Rightarrow> error + DateTime"
  springForward :: "int \<Rightarrow> bool"
  offsetMinutes :: "int \<Rightarrow> int \<Rightarrow> int"
  inheritedString :: "string \<Rightarrow> string"

text \<open>
  In \<open>America/New_York\<close> every change of the offset is at 02:00 on the wall clock and by
  one hour. On a day the clocks go forward the wall-clock times from 02:00 up to 03:00 do
  not exist, and the library gives a date-time asked for at such a time the time one hour
  later; every other wall-clock time is kept, midnight among them.
\<close>

definition wallClock :: "'n host \<Rightarrow> int \<Rightarrow> int \<Rightarrow> int" where
  "wallClock h d ms =
     (if springForward h d \<and> 7200000 \<le> ms \<and> ms < 10800000 then ms + 3600000 else ms)"

text \<open>\<open>dt.plus({ days: n })\<close>: an invalid date-time is returned as it is; a valid one
  moves by \<open>n\<close> civil days and keeps its wall-clock time where the zone has it on the new
  day.\<close>

fun plus_days :: "'n host \<Rightarrow> DateTime \<Rightarrow> num_js \<Rightarrow> error + DateTime" where
  "plus_days h InvalidDT n = Inr InvalidDT"
| "plus_days h (DT d ms) (Num n) = Inr (DT (d + n) (wallClock h (d + n) ms))"
| "plus_days h (DT d ms) n = plusNonFinite h (DT d ms) n"

definition msPerDay :: int where
  "msPerDay = 86400000"

text \<open>\<open>dt.minus({ milliseconds: k })\<close>, for an amount within which the offset of the zone
  does not change (the handlers take one millisecond from a civil midnight).\<close>

fun minus_ms :: "DateTime \<Rightarrow> int \<Rightarrow> DateTime" where
  "minus_ms InvalidDT k = InvalidDT"
| "minus_ms (DT d ms) k = DT (d + (ms - k) div msPerDay) ((ms - k) mod msPerDay)"

text \<open>\<open>a.startOf("day").diff(b.startOf("day"), "days").days\<close>: the difference of two
  civil midnights in days, \<open>NaN\<close> when one of them is invalid.\<close>

fun dayDiff :: "DateTime \<Rightarrow> DateTime \<Rightarrow> num_js" where
  "dayDiff (DT a x) (DT b y) = Num (a - b)"
| "dayDiff _ _ = NaN"

text \<open>The civil date (year, month, day) of a day count.\<close>

definition civil :: "int \<Rightarrow> int \<times> int \<times> int" where
  "civil d =
     (let z = d + 719468;
          era = z div 146097;
          doe = z - era * 146097;
          yoe = (doe - doe div 1460 + doe div 36524 - doe div 146096) div 365;
          doy = doe - (365 * yoe + yoe div 4 - yoe div 100);
          mp = (5 * doy + 2) div 153;
          dd = doy - (153 * mp + 2) div 5 + 1;
          m = (if mp < 10 then mp + 3 else mp - 9);
          y = yoe + era * 400
      in (if m \<le> 2 then y + 1 else y, m, dd))"

text \<open>\<open>dt.toUTC()\<close>: the same instant on the UTC wall clock.\<close>

fun toUTC :: "'n host \<Rightarrow> DateTime \<Rightarrow> DateTime" where
  "toUTC h InvalidDT = InvalidDT"
| "toUTC h (DT d ms) = minus_ms (DT d ms) (offsetMinutes h d ms * 60000)"

fun dec :: "nat \<Rightarrow> string" where
  "dec n = (if n < 10 then [''0123456789'' ! n] else dec (n div 10) @ [''0123456789'' ! (n mod 10)])"

text \<open>A number padded with zeros to a width; a negative one keeps its sign in front.\<close>

definition pad :: "nat \<Rightarrow> int \<Rightarrow> string" where
  "pad w n =
     (let ds = dec (nat \<bar>n\<bar>); body = replicate (w - length ds) CHR ''0'' @ ds
      in if n < 0 then CHR ''-'' # body else body)"

text \<open>\<open>dt.toFormat("yyyyMMdd'T'HHmmss'Z'")\<close>\<close>

fun toFormatBasic :: "DateTime \<Rightarrow> string" where
  "toFormatBasic InvalidDT = ''Invalid DateTime''"
| "toFormatBasic (DT d ms) =
     (case civil d of (y, m, dd) \<Rightarrow>
        pad 4 y @ pad 2 m @ pad 2 dd @ ''T'' @ pad 2 (ms div 3600000) @
        pad 2 (ms div 60000 mod 60) @ pad 2 (ms div 1000 mod 60) @ ''Z'')"

definition toRRuleUntilUTC :: "'n host \<Rightarrow> DateTime \<Rightarrow> string" where
  "toRRuleUntilUTC h dt = toFormatBasic (toUTC h dt)"

text \<open>\<open>[dt.year, dt.month, dt.day, dt.hour, dt.minute]\<close>; each is \<open>NaN\<close> on an invalid
  date-time.\<close>

fun components :: "DateTime \<Rightarrow> num_js list" where
  "components InvalidDT = [NaN, NaN, NaN, NaN, NaN]"
| "components (DT d ms) =
     (case civil d of (y, m, dd) \<Rightarrow>
        [Num y, Num m, Num dd, Num (ms div 3600000), Num (ms div 60000 mod 60)])"

definition toICSArrayLocal :: "DateTime \<Rightarrow> num_js list" where
  "toICSArrayLocal dt = components dt"

definition toICSArrayUTC :: "'n host \<Rightarrow> DateTime \<Rightarrow> num_js list" where
  "toICSArrayUTC h dt = components (toUTC h dt)"

section \<open>The weekday tables and the alignment\<close>

text \<open>
  \<open>dayToByday[d]\<close> reads a plain object: an own property for the seven names, a property
  inherited from \<open>Object.prototype\<close> (a function or an object, so truthy and not a
  string) for the names of that prototype, and \<open>undefined\<close> otherwise.
\<close>

datatype lookup = Own string | Inherited string | Undefined

definition objectPrototypeKeys :: "string list" where
  "objectPrototypeKeys =
     [''constructor'', ''hasOwnProperty'', ''isPrototypeOf'', ''propertyIsEnumerable'',
      ''toLocaleString'', ''toString'', ''valueOf'', ''__proto__'', ''__defineGetter__'',
      ''__defineSetter__'', ''__lookupGetter__'', ''__lookupSetter__'']"

definition dayToByday :: "string \<Rightarrow> lookup" where
  "dayToByday d =
     (if d = ''Sunday'' then Own ''SU''
      else if d = ''Monday'' then Own ''MO''
      else if d = ''Tuesday'' then Own ''TU''
      else if d = ''Wednesday'' then Own ''WE''
      else if d = ''Thursday'' then Own ''TH''
      else if d = ''Friday'' then Own ''FR''
      else if d = ''Saturday'' then Own ''SA''
      else if d \<in> set objectPrototypeKeys then Inherited d
      else Undefined)"

text \<open>\<open>dayToNumber[d]\<close>, kept when it is a number.\<close>

definition dayToNumber :: "string \<Rightarrow> int option" where
  "dayToNumber d =
     (if d = ''Monday'' then Some 1
      else if d = ''Tuesday'' then Some 2
      else if d = ''Wednesday'' then Some 3
      else if d = ''Thursday'' then Some 4
      else if d = ''Friday'' then Some 5
      else if d = ''Saturday'' then Some 6
      else if d = ''Sunday'' then Some 7
      else None)"

text \<open>\<open>(target - startLocal.weekday + 7) % 7\<close>; the remainder has the sign of the
  dividend.\<close>

fun delta_js :: "int \<Rightarrow> num_js \<Rightarrow> num_js" where
  "delta_js target (Num w) = Num ((target - w + 7) smod 7)"
| "delta_js target _ = NaN"

definition minDelta :: "DateTime \<Rightarrow> int list \<Rightarrow> num_js" where
  "minDelta startLocal targetWeekdays =
     foldl (\<lambda>m target. let delta = delta_js target (weekday startLocal)
                        in if lt_js delta m then delta else m)
       PosInf targetWeekdays"

definition alignToFirstMatchingWeekday ::
  "'n host \<Rightarrow> DateTime \<Rightarrow> string list \<Rightarrow> error + DateTime" where
  "alignToFirstMatchingWeekday h startLocal days =
     (if days = [] then Inr startLocal
      else plus_days h startLocal (minDelta startLocal (List.map_filter dayToNumber days)))"

text \<open>
  The alignment of both handlers: the aligned start, the difference of the two civil
  days, and the start and the end moved by it. Each \<open>plus\<close> may throw.
\<close>

definition alignTimes ::
  "'n host \<Rightarrow> DateTime \<Rightarrow> DateTime \<Rightarrow> string list \<Rightarrow> error + DateTime \<times> DateTime" where
  "alignTimes h startLocal endLocal days =
     (case alignToFirstMatchingWeekday h startLocal days of
        Inl e \<Rightarrow> Inl e
      | Inr alignedStart \<Rightarrow>
          (let diffDays = dayDiff alignedStart startLocal in
           case plus_days h startLocal diffDays of
             Inl e \<Rightarrow> Inl e
           | Inr s \<Rightarrow>
               (case plus_days h endLocal diffDays of
                  Inl e \<Rightarrow> Inl e
                | Inr e' \<Rightarrow> Inr (s, e'))))"

text \<open>\<open>DateTime.fromFormat(s, "MM/dd/yyyy", zone).plus({ days: 1 }).minus({ milliseconds: 1 })\<close>;
  the plus of one day cannot throw.\<close>

definition untilOf :: "'n host \<Rightarrow> string \<Rightarrow> DateTime" where
  "untilOf h s =
     (case plus_days h (fromFormat h s ''MM/dd/yyyy'') (Num 1) of
        Inr dt \<Rightarrow> minus_ms dt 1
      | Inl e \<Rightarrow> InvalidDT)"

section \<open>Courses and meetings\<close>

text \<open>
  The \<open>Course\<close> type of both handlers; an optional field is an option. A field that another
  record of this theory has too carries a letter in front.
\<close>

record 'n Course =
  crn :: 'n
  title :: string
  details :: string
  start :: "DateTime option"
  c_end :: "DateTime option"
  until :: "DateTime option"
  day :: "string list option"
  campus :: "string option"
  location :: "string option"
  room :: "string option"

text \<open>\<open>Pick<Course, "crn" | "title" | "details">\<close>\<close>

record 'n Base =
  b_crn :: 'n
  b_title :: string
  b_details :: string

text \<open>The \<open>Meeting\<close> of the classifying handler. \<open>timeStrings\<close> is whatever the split of a
  time row gives: one or two strings.\<close>

record Meeting =
  m_day :: "string list option"
  timeStrings :: "string list option"
  m_campus :: "string option"
  m_location :: "string option"
  m_room :: "string option"
  dateStrings :: "string list option"

definition noMeeting :: Meeting where
  "noMeeting = \<lparr>m_day = None, timeStrings = None, m_campus = None, m_location = None,
     m_room = None, dateStrings = None\<rparr>"

text \<open>\<open>{ ...pendingMeeting }\<close>: the fields of the pending meeting, none when it is \<open>null\<close>.\<close>

definition spread :: "Meeting option \<Rightarrow> Meeting" where
  "spread pm = (case pm of None \<Rightarrow> noMeeting | Some m \<Rightarrow> m)"

text \<open>The variables the loop over the rows updates.\<close>

record 'n pstate =
  baseCourse :: "'n Base option"
  pendingMeeting :: "Meeting option"
  currentDateStrings :: "string list"
  parsedCourses :: "'n Course list"

definition initState :: "'n pstate" where
  "initState = \<lparr>baseCourse = None, pendingMeeting = None, currentDateStrings = [],
     parsedCourses = []\<rparr>"

text \<open>The date strings \<open>finalizeMeeting\<close> works with: the meeting's own when there are at
  least two, else the current ones when there are at least two, else none.\<close>

definition chosenDates :: "Meeting \<Rightarrow> string list \<Rightarrow> string list" where
  "chosenDates m cur =
     (case dateStrings m of
        Some ds \<Rightarrow> if length ds \<ge> 2 then ds else if length cur \<ge> 2 then cur else []
      | None \<Rightarrow> if length cur \<ge> 2 then cur else [])"

text \<open>The course \<open>finalizeMeeting\<close> pushes, or the error a \<open>plus\<close> throws before the push.\<close>

definition resolve ::
  "'n host \<Rightarrow> 'n Base \<Rightarrow> Meeting \<Rightarrow> string list \<Rightarrow> string list \<Rightarrow> string list
     \<Rightarrow> error + 'n Course" where
  "resolve h b m days tms dates =
     (let startLocal = fromFormat h (tpl dates 0 @ '' '' @ tpl tms 0) ''MM/dd/yyyy hh:mma'';
          endLocal = fromFormat h (tpl dates 0 @ '' '' @ tpl tms 1) ''MM/dd/yyyy hh:mma'';
          u = untilOf h (dates ! 1)
      in case alignTimes h startLocal endLocal days of
           Inl e \<Rightarrow> Inl e
         | Inr (s, e) \<Rightarrow>
             Inr \<lparr>crn = b_crn b, title = b_title b, details = b_details b,
                  start = Some s, c_end = Some e, until = Some u, day = Some days,
                  campus = m_campus m, location = m_location m, room = m_room m\<rparr>)"

definition finalizeMeeting :: "'n host \<Rightarrow> 'n pstate \<Rightarrow> error + 'n pstate" where
  "finalizeMeeting h st =
     (case baseCourse st of
        None \<Rightarrow> Inr st
      | Some b \<Rightarrow>
          (case pendingMeeting st of
             None \<Rightarrow> Inr st
           | Some m \<Rightarrow>
               (case m_day m of
                  None \<Rightarrow> Inr st
                | Some days \<Rightarrow>
                    (let dates = chosenDates m (currentDateStrings st) in
                     case timeStrings m of
                       None \<Rightarrow> Inr st
                     | Some tms \<Rightarrow>
                         if length dates < 2 then Inr st
                         else (case resolve h b m days tms dates of
                                 Inl e \<Rightarrow> Inl e
                               | Inr c \<Rightarrow>
                                   Inr (st\<lparr>parsedCourses := parsedCourses st @ [c],
                                           pendingMeeting := None\<rparr>))))))"

text \<open>\<open>dayToByday[d]\<close> as a condition.\<close>

definition truthy :: "lookup \<Rightarrow> bool" where
  "truthy p = (case p of Own s \<Rightarrow> s \<noteq> [] | Inherited k \<Rightarrow> True | Undefined \<Rightarrow> False)"

definition isDayRow :: "string \<Rightarrow> bool" where
  "isDayRow t = list_all (\<lambda>d. truthy (dayToByday d)) (map trim (split CHR '','' t))"

text \<open>\<open>split3\<close>, called with the separator \<open>","\<close>.\<close>

definition split3 :: "string \<Rightarrow> char \<Rightarrow> error + string \<times> string \<times> string" where
  "split3 str sep =
     (let parts = split sep str in
      if length parts < 3 then Inl Error
      else Inr (hd parts, join [sep] (butlast (tl parts)), last parts))"

text \<open>A string as a condition: the empty string is falsy, as \<open>undefined\<close> is.\<close>

definition present :: "string option \<Rightarrow> bool" where
  "present x = (case x of None \<Rightarrow> False | Some s \<Rightarrow> s \<noteq> [])"

text \<open>The location branch of the loop, once the row is known to be a location row.\<close>

definition locate :: "Meeting option \<Rightarrow> string \<Rightarrow> Meeting" where
  "locate pm t =
     (case split3 t CHR '','' of
        Inr (l, m, r) \<Rightarrow>
          (spread pm)\<lparr>m_campus := Some (trim l), m_location := Some (trim m),
                       m_room := Some (trim r)\<rparr>
      | Inl e \<Rightarrow> (spread pm)\<lparr>m_location := Some t\<rparr>)"

definition isLocationRow :: "Meeting option \<Rightarrow> string list \<Rightarrow> string \<Rightarrow> bool" where
  "isLocationRow pm row t =
     (length row = 1 \<and> CHR '','' \<in> set t \<and> \<not> present (m_room (spread pm)) \<and>
      (CHR ''*'' \<in> set t \<or> hasRoomNumber t))"

text \<open>
  One turn of the loop \<open>for (const row of validRows)\<close>, branch by branch: a course row, and
  for the other rows, on the joined and trimmed text \<open>t\<close>, a date range, a day row, a time
  row and a location row.
\<close>

definition headerRow :: "'n host \<Rightarrow> 'n pstate \<Rightarrow> string list \<Rightarrow> error + 'n pstate" where
  "headerRow h st row =
     (let row4 = (if length row = 6 then row ! 4 @ row ! 5 else row ! 4) in
      case finalizeMeeting h st of
        Inl e \<Rightarrow> Inl e
      | Inr st1 \<Rightarrow>
          Inr (st1\<lparr>baseCourse :=
                      Some \<lparr>b_crn = Number h (row ! 3), b_title = row ! 0, b_details = row ! 1\<rparr>,
                    pendingMeeting := None,
                    currentDateStrings := map trim (split2 CHR ''-'' row4)\<rparr>))"

definition dateRow :: "'n host \<Rightarrow> 'n pstate \<Rightarrow> string \<Rightarrow> error + 'n pstate" where
  "dateRow h st t =
     (case finalizeMeeting h st of
        Inl e \<Rightarrow> Inl e
      | Inr st1 \<Rightarrow>
          (let ds = map trim (split2 CHR ''-'' t) in
           Inr (st1\<lparr>currentDateStrings := ds,
                     pendingMeeting :=
                       Some ((spread (pendingMeeting st1))\<lparr>dateStrings := Some ds\<rparr>)\<rparr>)))"

definition dayRow :: "'n host \<Rightarrow> 'n pstate \<Rightarrow> string \<Rightarrow> error + 'n pstate" where
  "dayRow h st t =
     (case (if m_day (spread (pendingMeeting st)) \<noteq> None \<and>
               timeStrings (spread (pendingMeeting st)) \<noteq> None
            then finalizeMeeting h st else Inr st) of
        Inl e \<Rightarrow> Inl e
      | Inr st1 \<Rightarrow>
          Inr (st1\<lparr>pendingMeeting :=
                      Some ((spread (pendingMeeting st1))
                              \<lparr>m_day := Some (map trim (split CHR '','' t))\<rparr>)\<rparr>))"

definition timeRow :: "'n pstate \<Rightarrow> string \<Rightarrow> 'n pstate" where
  "timeRow st t =
     st\<lparr>pendingMeeting :=
          Some ((spread (pendingMeeting st))
                  \<lparr>timeStrings := Some (map trim (split2 CHR ''-'' (strip_ws t)))\<rparr>)\<rparr>"

definition locationRow :: "'n pstate \<Rightarrow> string \<Rightarrow> 'n pstate" where
  "locationRow st t = st\<lparr>pendingMeeting := Some (locate (pendingMeeting st) t)\<rparr>"

definition step :: "'n host \<Rightarrow> 'n pstate \<Rightarrow> string list \<Rightarrow> error + 'n pstate" where
  "step h st row =
     (if (length row = 5 \<or> length row = 6) \<and> row ! 0 \<noteq> ''Title'' then headerRow h st row
      else
        (let t = trim (join '' '' row) in
         if t = [] then Inr st
         else if dateRangeRegex t then dateRow h st t
         else if isDayRow t then dayRow h st t
         else if isTimeRow t then Inr (timeRow st t)
         else if isLocationRow (pendingMeeting st) row t then Inr (locationRow st t)
         else Inr st))"

text \<open>The loop, stopped by the first error thrown.\<close>

fun steps :: "'n host \<Rightarrow> 'n pstate \<Rightarrow> string list list \<Rightarrow> error + 'n pstate" where
  "steps h st [] = Inr st"
| "steps h st (row # rows) =
     (case step h st row of Inl e \<Rightarrow> Inl e | Inr st1 \<Rightarrow> steps h st1 rows)"

text \<open>The loop and the last \<open>finalizeMeeting\<close>: the list given to \<open>setCourses\<close>.\<close>

definition assemble :: "'n host \<Rightarrow> string list list \<Rightarrow> error + 'n Course list" where
  "assemble h validRows =
     (case steps h initState validRows of
        Inl e \<Rightarrow> Inl e
      | Inr st \<Rightarrow>
          (case finalizeMeeting h st of
             Inl e \<Rightarrow> Inl e
           | Inr st1 \<Rightarrow> Inr (parsedCourses st1)))"

section \<open>The table and the handler\<close>

text \<open>\<open>rows.findIndex(p)\<close>: the first index, or \<open>-1\<close>.\<close>

fun findIndex :: "('a \<Rightarrow> bool) \<Rightarrow> 'a list \<Rightarrow> int" where
  "findIndex p [] = - 1"
| "findIndex p (x # xs) =
     (if p x then 0 else (let i = findIndex p xs in if i = - 1 then - 1 else i + 1))"

text \<open>\<open>row[0] === label\<close>: a row without cells has no first cell.\<close>

definition firstIs :: "string \<Rightarrow> string list \<Rightarrow> bool" where
  "firstIs label row = (case row of [] \<Rightarrow> False | c # cs \<Rightarrow> c = label)"

text \<open>\<open>rows.slice(a, b)\<close> for indices that are not negative.\<close>

definition slice :: "'a list \<Rightarrow> int \<Rightarrow> int \<Rightarrow> 'a list" where
  "slice xs a b = take (nat b - nat a) (drop (nat a) xs)"

text \<open>The state of the component that the handlers read and write.\<close>

record 'n app =
  courses :: "'n Course list"
  filename :: string
  selectedCourses :: "'n Course list"

text \<open>The loop that looks for the name above the header, from \<open>headIdx - 1\<close> down.\<close>

definition nameAbove :: "'n app \<Rightarrow> string list list \<Rightarrow> int \<Rightarrow> 'n app" where
  "nameAbove a rows headIdx =
     (case find (\<lambda>row. scheduleRegex (tpl row 0)) (rev (take (nat headIdx) rows)) of
        None \<Rightarrow> a
      | Some row \<Rightarrow> a\<lparr>filename := tpl row 0\<rparr>)"

text \<open>
  The handler from \<open>allRows\<close> on: the state it leaves, and the error when the promise is
  rejected.
\<close>

definition parseRows :: "'n host \<Rightarrow> 'n app \<Rightarrow> string list list \<Rightarrow> 'n app \<times> error option" where
  "parseRows h a rows =
     (let headIdx = findIndex (firstIs ''Title'') rows;
          tailIdx = findIndex (firstIs ''Total Hours'') rows
      in if headIdx = - 1 \<or> tailIdx = - 1 \<or> tailIdx \<le> headIdx then (a, None)
         else
           (let a1 = nameAbove a rows headIdx;
                validRows = slice rows (headIdx + 1) tailIdx
            in if validRows = [] then (a1, None)
               else (case assemble h validRows of
                       Inl e \<Rightarrow> (a1, Some e)
                     | Inr cs \<Rightarrow> (a1\<lparr>courses := cs\<rparr>, None))))"

definition handleExtractPDF :: "'n host \<Rightarrow> 'n app \<Rightarrow> item list list \<Rightarrow> 'n app \<times> error option" where
  "handleExtractPDF h a pages = parseRows h a (allRows pages)"

section \<open>The positional handler\<close>

text \<open>
  The other handler of the repository reads the rows after a course row by their position:
  the first as the days, the second as the times, the third as the location. Its variables (\<open>p_i\<close> is the counter \<open>i\<close>):
\<close>

record 'n pstate0 =
  currentCourse :: "'n Course option"
  currentDateStrings0 :: "string list"
  parsedCourses0 :: "'n Course list"
  p_i :: nat

definition initState0 :: "'n pstate0" where
  "initState0 = \<lparr>currentCourse = None, currentDateStrings0 = [], parsedCourses0 = [], p_i = 0\<rparr>"

definition newCourse :: "'n \<Rightarrow> string \<Rightarrow> string \<Rightarrow> 'n Course" where
  "newCourse n t d =
     \<lparr>crn = n, title = t, details = d, start = None, c_end = None, until = None,
      day = None, campus = None, location = None, room = None\<rparr>"

text \<open>\<open>if (currentCourse) parsedCourses.push(currentCourse)\<close>\<close>

definition pushCurrent :: "'n pstate0 \<Rightarrow> 'n Course list" where
  "pushCurrent st =
     (case currentCourse st of
        None \<Rightarrow> parsedCourses0 st
      | Some c \<Rightarrow> parsedCourses0 st @ [c])"

text \<open>The time row (\<open>case 1\<close>) on the current course.\<close>

definition timeRow0 ::
  "'n host \<Rightarrow> string list \<Rightarrow> 'n Course \<Rightarrow> string list \<Rightarrow> error + 'n Course" where
  "timeRow0 h cur c row =
     (let tms = map trim (split2 CHR ''-'' (join [] row));
          startLocal = fromFormat h (tpl cur 0 @ '' '' @ tpl tms 0) ''MM/dd/yyyy hh:mma'';
          endLocal = fromFormat h (tpl cur 0 @ '' '' @ tpl tms 1) ''MM/dd/yyyy hh:mma'';
          c1 = c\<lparr>until := Some (untilOf h (tpl cur 1))\<rparr>
      in case (case day c1 of
                 None \<Rightarrow> Inr (startLocal, endLocal)
               | Some ds \<Rightarrow>
                   if length ds > 0 then alignTimes h startLocal endLocal ds
                   else Inr (startLocal, endLocal)) of
           Inl e \<Rightarrow> Inl e
         | Inr (s, e) \<Rightarrow> Inr (c1\<lparr>start := Some s, c_end := Some e\<rparr>))"

text \<open>The location row (\<open>case 2\<close>): whatever \<open>split3\<close> throws is caught and dropped.\<close>

definition locationRow0 :: "'n Course \<Rightarrow> string list \<Rightarrow> 'n Course" where
  "locationRow0 c row =
     (case row of
        [] \<Rightarrow> c
      | r # rs \<Rightarrow>
          (case split3 r CHR '','' of
             Inr (l, m, r') \<Rightarrow>
               c\<lparr>campus := Some (trim l), location := Some (trim m), room := Some (trim r')\<rparr>
           | Inl e \<Rightarrow> c))"

text \<open>One turn of its loop. On a row of six cells it writes \<open>row[5] + row[6]\<close> to \<open>row[5]\<close>,
  and reads the dates from \<open>row[4]\<close>.\<close>

definition step0 :: "'n host \<Rightarrow> 'n pstate0 \<Rightarrow> string list \<Rightarrow> error + 'n pstate0" where
  "step0 h st row =
     (if (length row = 5 \<or> length row = 6) \<and> row ! 0 \<noteq> ''Title'' then
        (let row' = (if length row = 6 then row[5 := tpl row 5 @ tpl row 6] else row) in
         Inr \<lparr>currentCourse = Some (newCourse (Number h (row' ! 3)) (row' ! 0) (row' ! 1)),
              currentDateStrings0 = map trim (split2 CHR ''-'' (row' ! 4)),
              parsedCourses0 = pushCurrent st,
              p_i = 0\<rparr>)
      else
        (let st1 = st\<lparr>p_i := p_i st + 1\<rparr> in
         case currentCourse st of
           None \<Rightarrow> Inr st1
         | Some c \<Rightarrow>
             if p_i st = 0 then
               (case row of
                  [] \<Rightarrow> Inl TypeError
                | r # rs \<Rightarrow>
                    Inr (st1\<lparr>currentCourse :=
                                Some (c\<lparr>day := Some (map trim (split CHR '','' r))\<rparr>)\<rparr>))
             else if p_i st = 1 then
               (case timeRow0 h (currentDateStrings0 st) c row of
                  Inl e \<Rightarrow> Inl e
                | Inr c1 \<Rightarrow> Inr (st1\<lparr>currentCourse := Some c1\<rparr>))
             else if p_i st = 2 then Inr (st1\<lparr>currentCourse := Some (locationRow0 c row)\<rparr>)
             else Inr st1))"

fun steps0 :: "'n host \<Rightarrow> 'n pstate0 \<Rightarrow> string list list \<Rightarrow> error + 'n pstate0" where
  "steps0 h st [] = Inr st"
| "steps0 h st (row # rows) =
     (case step0 h st row of Inl e \<Rightarrow> Inl e | Inr st1 \<Rightarrow> steps0 h st1 rows)"

definition assemble0 :: "'n host \<Rightarrow> string list list \<Rightarrow> error + 'n Course list" where
  "assemble0 h validRows =
     (case steps0 h initState0 validRows of
        Inl e \<Rightarrow> Inl e
      | Inr st \<Rightarrow> Inr (pushCurrent st))"

definition parseRows0 :: "'n host \<Rightarrow> 'n app \<Rightarrow> string list list \<Rightarrow> 'n app \<times> error option" where
  "parseRows0 h a rows =
     (let headIdx = findIndex (firstIs ''Title'') rows;
          tailIdx = findIndex (firstIs ''Total Hours'') rows
      in if headIdx = - 1 \<or> tailIdx = - 1 \<or> tailIdx \<le> headIdx then (a, None)
         else
           (let a1 = nameAbove a rows headIdx;
                validRows = slice rows (headIdx + 1) tailIdx
            in if validRows = [] then (a1, None)
               else (case assemble0 h validRows of
                       Inl e \<Rightarrow> (a1, Some e)
                     | Inr cs \<Rightarrow> (a1\<lparr>courses := cs\<rparr>, None))))"

definition handleExtractPDF0 :: "'n host \<Rightarrow> 'n app \<Rightarrow> item list list \<Rightarrow> 'n app \<times> error option" where
  "handleExtractPDF0 h a pages = parseRows0 h a (allRows pages)"

section \<open>The events\<close>

datatype timeType = Utc | Local

record event =
  e_title :: string
  description :: string
  e_start :: "num_js list"
  startInputType :: timeType
  startOutputType :: timeType
  e_end :: "num_js list"
  endInputType :: timeType
  endOutputType :: timeType
  e_location :: "string option"
  recurrenceRule :: string
  transp :: string

text \<open>\<open>course.day.map((day) => dayToByday[day]).join(",")\<close>: \<open>join\<close> prints \<open>undefined\<close> as
  the empty string.\<close>

definition printed :: "'n host \<Rightarrow> lookup \<Rightarrow> string" where
  "printed h p = (case p of Own s \<Rightarrow> s | Inherited k \<Rightarrow> inheritedString h k | Undefined \<Rightarrow> [])"

definition byDays :: "'n host \<Rightarrow> string list \<Rightarrow> string" where
  "byDays h ds = join '','' (map (\<lambda>d. printed h (dayToByday d)) ds)"

definition rruleString :: "'n host \<Rightarrow> string list \<Rightarrow> DateTime \<Rightarrow> string" where
  "rruleString h ds u =
     ''FREQ=WEEKLY;BYDAY='' @ byDays h ds @ '';INTERVAL=1;UNTIL='' @ toRRuleUntilUTC h u"

text \<open>\<open>[course.location, course.room].filter(Boolean).join(", ") || undefined\<close>\<close>

definition eventLocation :: "'n Course \<Rightarrow> string option" where
  "eventLocation c =
     (let s = join '', '' (filter (\<lambda>x. x \<noteq> []) (List.map_filter id [location c, room c]))
      in if s = [] then None else Some s)"

text \<open>The event of a selected course in the classifying handler's file, \<open>null\<close> as \<open>None\<close>.\<close>

definition eventLocal :: "'n host \<Rightarrow> 'n Course \<Rightarrow> event option" where
  "eventLocal h c =
     (case (day c, start c, c_end c, until c) of
        (Some ds, Some s, Some e, Some u) \<Rightarrow>
          Some \<lparr>e_title = details c, description = title c,
                e_start = toICSArrayLocal s, startInputType = Local, startOutputType = Local,
                e_end = toICSArrayLocal e, endInputType = Local, endOutputType = Local,
                e_location = eventLocation c, recurrenceRule = rruleString h ds u,
                transp = ''OPAQUE''\<rparr>
      | _ \<Rightarrow> None)"

text \<open>The event of a selected course in the positional handler's file.\<close>

definition eventUTC :: "'n host \<Rightarrow> 'n Course \<Rightarrow> event option" where
  "eventUTC h c =
     (case (day c, start c, c_end c, until c) of
        (Some ds, Some s, Some e, Some u) \<Rightarrow>
          Some \<lparr>e_title = details c, description = title c,
                e_start = toICSArrayUTC h s, startInputType = Utc, startOutputType = Utc,
                e_end = toICSArrayUTC h e, endInputType = Utc, endOutputType = Utc,
                e_location = eventLocation c, recurrenceRule = rruleString h ds u,
                transp = ''OPAQUE''\<rparr>
      | _ \<Rightarrow> None)"

text \<open>The list given to \<open>ics.createEvents\<close>; \<open>None\<close> when nothing is selected and the
  handler only alerts.\<close>

definition handleDownload :: "'n host \<Rightarrow> 'n app \<Rightarrow> event list option" where
  "handleDownload h a =
     (if selectedCourses a = [] then None
      else Some (List.map_filter (eventLocal h) (selectedCourses a)))"

definition handleDownload0 :: "'n host \<Rightarrow> 'n app \<Rightarrow> event list option" where
  "handleDownload0 h a =
     (if selectedCourses a = [] then None
      else Some (List.map_filter (eventUTC h) (selectedCourses a)))"

text \<open>The rows the table lets the user select (\<open>enableRowSelection\<close>).\<close>

definition selectable :: "'n Course \<Rightarrow> bool" where
  "selectable c =
     ((case day c of None \<Rightarrow> False | Some ds \<Rightarrow> length ds > 0) \<and>
      start c \<noteq> None \<and> c_end c \<noteq> None)"

section \<open>A host for the examples\<close>

text \<open>
  The examples run on one host: \<open>Number\<close> reads decimal digits, \<open>fromFormat\<close> knows the
  strings of a spring term (06 January 2025 is a Monday, day 20094; 03 March 2025 is day
  20150; 25 April 2025 is day 20203), a \<open>plus\<close> of an amount that is not finite throws,
  the clocks go forward on 09 March 2025 (day 20156), the zone is four hours behind UTC,
  and an inherited property prints as the browsers print it.
\<close>

definition decimal :: "string \<Rightarrow> int" where
  "decimal s = foldl (\<lambda>n c. 10 * n + (of_char c - 48)) 0 s"

definition demoFormats :: "((string \<times> string) \<times> DateTime) list" where
  "demoFormats =
     [((''01/06/2025 09:00AM'', ''MM/dd/yyyy hh:mma''), DT 20094 32400000),
      ((''01/06/2025 09:50AM'', ''MM/dd/yyyy hh:mma''), DT 20094 35400000),
      ((''03/03/2025 02:30AM'', ''MM/dd/yyyy hh:mma''), DT 20150 9000000),
      ((''03/03/2025 04:00AM'', ''MM/dd/yyyy hh:mma''), DT 20150 14400000),
      ((''01/06/2025'', ''MM/dd/yyyy''), DT 20094 0),
      ((''04/25/2025'', ''MM/dd/yyyy''), DT 20203 0)]"

definition demoHost :: "int host" where
  "demoHost =
     \<lparr>Number = decimal,
      fromFormat = (\<lambda>s f. case map_of demoFormats (s, f) of None \<Rightarrow> InvalidDT | Some dt \<Rightarrow> dt),
      plusNonFinite = (\<lambda>dt n. Inl InvalidArgumentError),
      springForward = (\<lambda>d. d = 20156),
      offsetMinutes = (\<lambda>d ms. - 240),
      inheritedString =
        (\<lambda>k. if k = ''__proto__'' then ''[object Object]''
             else if k = ''constructor'' then ''function Object() { [native code] }''
             else ''function '' @ k @ ''() { [native code] }'')\<rparr>"

definition initialData :: "int Course list" where
  "initialData = [newCourse (- 1) ''Please upload a schedule'' ''-'']"

definition demoApp :: "int app" where
  "demoApp = \<lparr>courses = initialData, filename = [], selectedCourses = []\<rparr>"

text \<open>A page for the examples: two fragments of one line half a unit apart, a marker, a
  fragment of spaces and a header line above.\<close>

definition demoPage :: "item list" where
  "demoPage =
     [TextItem 300 (7004 / 10) ''Lecture'', TextItem 72 (6996 / 10) '' Intro to X '',
      TextMarkedContent, TextItem 72 650 ''   '', TextItem 72 (7203 / 10) ''Title'']"

section \<open>The shift as the specification words it\<close>

text \<open>
  Not taken from the code: the shift the specification describes for a start on civil day
  \<open>d\<close>, the least of \<open>(target weekday - start weekday) mod 7\<close> over the day-set, and the
  weekdays the day-set names. The theorems compare the code with them.
\<close>

definition spec_minShift :: "int \<Rightarrow> string list \<Rightarrow> int" where
  "spec_minShift d days =
     Min ((\<lambda>name. (the (dayToNumber name) - ((d + 3) mod 7 + 1)) mod 7) ` set days)"


text \<open>Not taken from the code: a date-time \<open>k\<close> whole civil days later, at its wall-clock
  time as the zone has it on that day; an invalid one stays invalid.\<close>

definition spec_moved :: "'n host \<Rightarrow> int \<Rightarrow> DateTime \<Rightarrow> DateTime" where
  "spec_moved h k dt =
     (case dt of InvalidDT \<Rightarrow> InvalidDT | DT d ms \<Rightarrow> DT (d + k) (wallClock h (d + k) ms))"




section \<open>Conditions and examples for the theorems\<close>

text \<open>The guards of \<open>finalizeMeeting\<close> put together: a base course, a pending meeting with
  a day-set and time strings, and at least two date strings to work with.\<close>

definition ready :: "'n pstate \<Rightarrow> bool" where
  "ready st =
     (baseCourse st \<noteq> None \<and>
      (case pendingMeeting st of
         None \<Rightarrow> False
       | Some m \<Rightarrow>
           m_day m \<noteq> None \<and> timeStrings m \<noteq> None \<and>
           2 \<le> length (chosenDates m (currentDateStrings st))))"

text \<open>What the loop keeps true: every course pushed has a day-set that is not empty, a
  start, an end and an until, and a pending meeting never has an empty day-set.\<close>

definition complete :: "'n Course \<Rightarrow> bool" where
  "complete c =
     ((case day c of None \<Rightarrow> False | Some ds \<Rightarrow> ds \<noteq> []) \<and>
      start c \<noteq> None \<and> c_end c \<noteq> None \<and> until c \<noteq> None)"

definition dayKept :: "Meeting option \<Rightarrow> bool" where
  "dayKept pm = (case pm of None \<Rightarrow> True | Some m \<Rightarrow> m_day m \<noteq> Some [])"

definition inv :: "'n pstate \<Rightarrow> bool" where
  "inv st = (list_all complete (parsedCourses st) \<and> dayKept (pendingMeeting st))"

text \<open>Rows of a table body that give a full meeting before any course row, and the state
  the loop reaches on them.\<close>

definition orphanRows :: "string list list" where
  "orphanRows = [[''01/06/2025 - 04/25/2025''], [''Monday''], [''09:00 AM - 09:50 AM'']]"

definition orphanMeeting :: Meeting where
  "orphanMeeting =
     \<lparr>m_day = Some [''Monday''], timeStrings = Some [''09:00AM'', ''09:50AM''],
      m_campus = None, m_location = None, m_room = None,
      dateStrings = Some [''01/06/2025'', ''04/25/2025'']\<rparr>"

definition orphanState :: "int pstate" where
  "orphanState =
     \<lparr>baseCourse = None, pendingMeeting = Some orphanMeeting,
      currentDateStrings = [''01/06/2025'', ''04/25/2025''], parsedCourses = []\<rparr>"

text \<open>The body of a table with one course, the state the loop reaches on it, and the
  course the last \<open>finalizeMeeting\<close> pushes.\<close>

definition demoBody :: "string list list" where
  "demoBody =
     [[''Intro to X'', ''Lecture'', ''3'', ''12345'', ''01/06/2025 - 04/25/2025''],
      [''Wednesday, Monday''], [''09:00 AM - 09:50 AM''], [''Main*, Hall 1, 101'']]"

definition demoMeeting :: Meeting where
  "demoMeeting =
     \<lparr>m_day = Some [''Wednesday'', ''Monday''], timeStrings = Some [''09:00AM'', ''09:50AM''],
      m_campus = Some ''Main*'', m_location = Some ''Hall 1'', m_room = Some ''101'',
      dateStrings = None\<rparr>"

definition demoState :: "int pstate" where
  "demoState =
     \<lparr>baseCourse = Some \<lparr>b_crn = 12345, b_title = ''Intro to X'', b_details = ''Lecture''\<rparr>,
      pendingMeeting = Some demoMeeting,
      currentDateStrings = [''01/06/2025'', ''04/25/2025''], parsedCourses = []\<rparr>"

definition demoCourse :: "int Course" where
  "demoCourse =
     \<lparr>crn = 12345, title = ''Intro to X'', details = ''Lecture'',
      start = Some (DT 20094 32400000), c_end = Some (DT 20094 35400000),
      until = Some (DT 20203 86399999), day = Some [''Wednesday'', ''Monday''],
      campus = Some ''Main*'', location = Some ''Hall 1'', room = Some ''101''\<rparr>"

text \<open>Not taken from the code: the two-letter codes of the seven weekday names as the
  specification lists them, Sunday to Saturday.\<close>

definition spec_bydayCodes :: "(string \<times> string) list" where
  "spec_bydayCodes =
     [(''Sunday'', ''SU''), (''Monday'', ''MO''), (''Tuesday'', ''TU''), (''Wednesday'', ''WE''),
      (''Thursday'', ''TH''), (''Friday'', ''FR''), (''Saturday'', ''SA'')]"

text \<open>
  Not taken from the code: the recurrence rule in words. After \<open>FREQ=WEEKLY;BYDAY=\<close> come
  the entries of the day-set in their order, joined by commas: a weekday name gives its
  two-letter code, a name of \<open>Object.prototype\<close> the text the host prints for that
  property, any other name nothing. After \<open>;INTERVAL=1;UNTIL=\<close> comes the until on the UTC
  clock as year, month, day, \<open>T\<close>, hour, minute, second, \<open>Z\<close>, each padded with zeros, or
  the words \<open>Invalid DateTime\<close> when the until is not a valid date-time.
\<close>

definition spec_rrule :: "'n host \<Rightarrow> string list \<Rightarrow> DateTime \<Rightarrow> string" where
  "spec_rrule h ds u =
     ''FREQ=WEEKLY;BYDAY='' @
     join '',''
       (map (\<lambda>d. case map_of spec_bydayCodes d of
                  Some code \<Rightarrow> code
                | None \<Rightarrow> if d \<in> set objectPrototypeKeys then inheritedString h d else [])
          ds) @
     '';INTERVAL=1;UNTIL='' @
     (case toUTC h u of
        InvalidDT \<Rightarrow> ''Invalid DateTime''
      | DT d ms \<Rightarrow>
          pad 4 (fst (civil d)) @ pad 2 (fst (snd (civil d))) @ pad 2 (snd (snd (civil d))) @
          ''T'' @ pad 2 (ms div 3600000) @ pad 2 (ms div 60000 mod 60) @
          pad 2 (ms div 1000 mod 60) @ ''Z'')"

text \<open>The body of a table whose course row has \<open>TBA\<close> for its second date, and the course
  the loop pushes on it.\<close>

definition openEndedBody :: "string list list" where
  "openEndedBody =
     [[''Intro to X'', ''Lecture'', ''3'', ''12345'', ''01/06/2025 - TBA''],
      [''Monday''], [''09:00 AM - 09:50 AM'']]"

definition openEndedCourse :: "int Course" where
  "openEndedCourse =
     \<lparr>crn = 12345, title = ''Intro to X'', details = ''Lecture'',
      start = Some (DT 20094 32400000), c_end = Some (DT 20094 35400000),
      until = Some InvalidDT, day = Some [''Monday''],
      campus = None, location = None, room = None\<rparr>"

text \<open>The fields of an event other than the start, the end and their type flags.\<close>

definition untimed :: "event \<Rightarrow> string \<times> string \<times> string option \<times> string \<times> string" where
  "untimed ev = (e_title ev, description ev, e_location ev, recurrenceRule ev, transp ev)"

text \<open>A table with one course row and nothing under it.\<close>

definition bareTable :: "string list list" where
  "bareTable =
     [[''Title''],
      [''Intro to X'', ''Lecture'', ''3'', ''12345'', ''01/06/2025 - 04/25/2025''],
      [''Total Hours'']]"

text \<open>A course row whose date range the extractor split into two cells.\<close>

definition sixCells :: "string list" where
  "sixCells = [''Intro to X'', ''Lecture'', ''3'', ''12345'', ''01/06/2025 -'', ''04/25/2025'']"

text \<open>A selected course with all its temporal fields.\<close>

definition demoSelected :: "int Course" where
  "demoSelected =
     \<lparr>crn = 12345, title = ''Intro to X'', details = ''Lecture'',
      start = Some (DT 20094 32400000), c_end = Some (DT 20094 35400000),
      until = Some (DT 20203 86399999), day = Some [''Wednesday'', ''Monday''],
      campus = Some ''Main*'', location = Some ''Hall 1'', room = Some ''101''\<rparr>"

text \<open>The meeting a location row whose last part is empty leaves pending.\<close>

definition roomlessMeeting :: Meeting where
  "roomlessMeeting =
     noMeeting\<lparr>m_campus := Some ''Main*'', m_location := Some ''Hall 1'', m_room := Some []\<rparr>"

section \<open>The table boundaries\<close>

lemma findIndex_none: "(\<forall>x \<in> set xs. \<not> p x) \<Longrightarrow> findIndex p xs = - 1"
  by (induction xs) auto

lemma findIndex_hit:
  "findIndex p xs \<noteq> - 1 \<Longrightarrow>
     0 \<le> findIndex p xs \<and> nat (findIndex p xs) < length xs \<and> p (xs ! nat (findIndex p xs))"
proof (induction xs)
  case Nil
  then show ?case by simp
next
  case (Cons x xs)
  show ?case
  proof (cases "p x")
    case True
    then show ?thesis by simp
  next
    case False
    with Cons.prems have ne: "findIndex p xs \<noteq> - 1"
      by (auto simp: Let_def split: if_splits)
    from Cons.IH [OF ne] False ne show ?thesis
      by (simp add: Let_def nat_add_distrib)
  qed
qed

lemma findIndex_first:
  "k < length xs \<Longrightarrow> p (xs ! k) \<Longrightarrow> 0 \<le> findIndex p xs \<and> findIndex p xs \<le> int k"
proof (induction xs arbitrary: k)
  case Nil
  then show ?case by simp
next
  case (Cons x xs)
  show ?case
  proof (cases "p x")
    case True
    then show ?thesis by simp
  next
    case False
    with Cons.prems obtain j where j: "k = Suc j" "j < length xs" "p (xs ! j)"
      by (cases k) auto
    from Cons.IH [of j] j False show ?thesis
      by (auto simp: Let_def)
  qed
qed

lemma boundary_guard:
  assumes "(\<forall>row \<in> set rows. \<not> firstIs ''Title'' row) \<or>
           (\<forall>row \<in> set rows. \<not> firstIs ''Total Hours'' row) \<or>
           (\<exists>k < length rows. firstIs ''Total Hours'' (rows ! k) \<and>
              (\<forall>j < k. \<not> firstIs ''Title'' (rows ! j)))"
  shows "findIndex (firstIs ''Title'') rows = - 1 \<or>
         findIndex (firstIs ''Total Hours'') rows = - 1 \<or>
         findIndex (firstIs ''Total Hours'') rows \<le> findIndex (firstIs ''Title'') rows"
proof -
  consider (a) "\<forall>row \<in> set rows. \<not> firstIs ''Title'' row"
    | (b) "\<forall>row \<in> set rows. \<not> firstIs ''Total Hours'' row"
    | (c) k where "k < length rows" "firstIs ''Total Hours'' (rows ! k)"
        "\<forall>j < k. \<not> firstIs ''Title'' (rows ! j)"
    using assms by blast
  then show ?thesis
  proof cases
    case a
    then show ?thesis by (simp add: findIndex_none)
  next
    case b
    then show ?thesis by (simp add: findIndex_none)
  next
    case c
    from findIndex_first [of k rows "firstIs ''Total Hours''"] c(1) c(2)
    have t: "findIndex (firstIs ''Total Hours'') rows \<le> int k" by simp
    show ?thesis
    proof (cases "findIndex (firstIs ''Title'') rows = - 1")
      case True
      then show ?thesis by simp
    next
      case False
      from findIndex_hit [OF False]
      have hd: "0 \<le> findIndex (firstIs ''Title'') rows"
        "firstIs ''Title'' (rows ! nat (findIndex (firstIs ''Title'') rows))" by simp_all
      with c(3) have "\<not> nat (findIndex (firstIs ''Title'') rows) < k" by blast
      with hd(1) t show ?thesis by linarith
    qed
  qed
qed

text \<open>
  C4. When no row starts with \<open>Title\<close>, or no row starts with \<open>Total Hours\<close>, or a
  \<open>Total Hours\<close> row stands with no \<open>Title\<close> row before it (so the first \<open>Total Hours\<close>
  row is at or before the first \<open>Title\<close> row), the handler returns with the state as it
  was: no course is produced, the course list and the file name are unchanged, and nothing
  is thrown. This holds for both handlers of the repository.
\<close>

theorem table_absent_unchanged:
  assumes "(\<forall>row \<in> set rows. \<not> firstIs ''Title'' row) \<or>
           (\<forall>row \<in> set rows. \<not> firstIs ''Total Hours'' row) \<or>
           (\<exists>k < length rows. firstIs ''Total Hours'' (rows ! k) \<and>
              (\<forall>j < k. \<not> firstIs ''Title'' (rows ! j)))"
  shows "parseRows h a rows = (a, None) \<and> parseRows0 h a rows = (a, None)"
  using boundary_guard [OF assms] by (auto simp: parseRows_def parseRows0_def Let_def)

theorem table_absent_unchanged_witness:
  "parseRows demoHost demoApp [[''Total Hours''], [''Intro''], [''Title'']] = (demoApp, None) \<and>
   parseRows0 demoHost demoApp [[''Total Hours''], [''Intro''], [''Title'']] = (demoApp, None)"
proof -
  have "\<exists>k < length [[''Total Hours''], [''Intro''], [''Title'']].
          firstIs ''Total Hours'' ([[''Total Hours''], [''Intro''], [''Title'']] ! k) \<and>
          (\<forall>j < k. \<not> firstIs ''Title'' ([[''Total Hours''], [''Intro''], [''Title'']] ! j))"
    by (rule exI [of _ 0]) (simp add: firstIs_def)
  then show ?thesis
    using table_absent_unchanged
      [of "[[''Total Hours''], [''Intro''], [''Title'']]" demoHost demoApp]
    by blast
qed

section \<open>The rows of a page\<close>


lemma strictly_decreasing_keys: "sorted_wrt (>) (rowKeys items)"
proof -
  let ?ks = "remdups (map (\<lambda>f. round_js (ty f)) (filter isTextItem items))"
  have "sorted (map (\<lambda>k. - k) (sort_key (\<lambda>k. - k) ?ks))"
    by (rule sorted_sort_key)
  moreover have "distinct (sort_key (\<lambda>k. - k) ?ks)"
    by simp
  then have "distinct (map (\<lambda>k. - k) (sort_key (\<lambda>k. - k) ?ks))"
    by (simp add: distinct_map inj_on_def)
  ultimately have "sorted_wrt (<) (map (\<lambda>k. - k) (sort_key (\<lambda>k. - k) ?ks))"
    by (simp add: strict_sorted_iff)
  then show ?thesis
    by (simp add: rowKeys_def sorted_wrt_map)
qed

lemma set_rowKeys: "set (rowKeys items) = {round_js (ty f) | f. f \<in> set items \<and> isTextItem f}"
  by (auto simp: rowKeys_def)

lemma page_keys: "map fst (pageRowsXY items) = filter (\<lambda>y. rowCells items y \<noteq> []) (rowKeys items)"
  by (simp add: pageRowsXY_def filter_map comp_def)

lemma page_rows_decreasing: "sorted_wrt (>) (map fst (pageRowsXY items))"
  unfolding page_keys by (rule sorted_wrt_filter) (rule strictly_decreasing_keys)

lemma cells_sorted: "sorted (map fst (rowCells items y))"
proof -
  have "sorted (map tx (sort_key tx (rowsMap items y)))"
    by (rule sorted_sort_key)
  then have "sorted (map fst (map (\<lambda>f. (tx f, trim (tstr f))) (sort_key tx (rowsMap items y))))"
    by (simp add: comp_def)
  then have "sorted_wrt (\<lambda>a b. fst a \<le> fst b)
               (map (\<lambda>f. (tx f, trim (tstr f))) (sort_key tx (rowsMap items y)))"
    by (simp only: sorted_wrt_map)
  then have "sorted_wrt (\<lambda>a b. fst a \<le> fst b) (rowCells items y)"
    unfolding rowCells_def by (rule sorted_wrt_filter)
  then show ?thesis
    by (simp add: sorted_wrt_map)
qed

lemma cells_mset:
  "mset (rowCells items y) =
     {#c \<in># image_mset (\<lambda>f. (tx f, trim (tstr f)))
              {#f \<in># mset items. isTextItem f \<and> round_js (ty f) = y#}. snd c \<noteq> []#}"
  by (simp add: rowCells_def rowsMap_def conj_commute)

lemma cells_stable:
  "filter (\<lambda>c. fst c = x) (rowCells items y) =
     filter (\<lambda>c. snd c \<noteq> [])
       (map (\<lambda>f. (tx f, trim (tstr f))) (filter (\<lambda>f. tx f = x) (rowsMap items y)))"
proof -
  have "filter (\<lambda>c. fst c = x) (rowCells items y) =
        filter (\<lambda>c. snd c \<noteq> [])
          (map (\<lambda>f. (tx f, trim (tstr f))) (filter (\<lambda>f. tx f = x) (sort_key tx (rowsMap items y))))"
    by (simp add: rowCells_def filter_map comp_def conj_commute)
  then show ?thesis
    by (simp only: sort_key_stable)
qed

lemma cells_nonempty: "c \<in> set (rowCells items y) \<Longrightarrow> snd c \<noteq> []"
  by (simp add: rowCells_def)

lemma page_row_cells: "(y, cells) \<in> set (pageRowsXY items) \<Longrightarrow> cells = rowCells items y \<and> cells \<noteq> []"
  by (auto simp: pageRowsXY_def)


lemma cells_present:
  "rowCells items y \<noteq> [] \<longleftrightarrow>
     (\<exists>f \<in> set items. isTextItem f \<and> round_js (ty f) = y \<and> trim (tstr f) \<noteq> [])"
proof -
  have "rowCells items y \<noteq> [] \<longleftrightarrow> set (rowCells items y) \<noteq> {}"
    by simp
  also have "\<dots> \<longleftrightarrow> (\<exists>f \<in> set items. isTextItem f \<and> round_js (ty f) = y \<and> trim (tstr f) \<noteq> [])"
    by (auto simp: rowCells_def rowsMap_def)
  finally show ?thesis .
qed

lemma page_key_set:
  "fst ` set (pageRowsXY items) =
     {round_js (ty f) | f. f \<in> set items \<and> isTextItem f \<and> trim (tstr f) \<noteq> []}"
proof -
  have "fst ` set (pageRowsXY items) = set (map fst (pageRowsXY items))"
    by simp
  also have "\<dots> = {y \<in> set (rowKeys items). rowCells items y \<noteq> []}"
    unfolding page_keys by simp
  also have "\<dots> = {round_js (ty f) | f. f \<in> set items \<and> isTextItem f \<and> trim (tstr f) \<noteq> []}"
    unfolding cells_present set_rowKeys by (auto intro: sym)
  finally show ?thesis .
qed

text \<open>
  C8, as the code has it. On every page the rows are in strictly decreasing order of the
  rounded baseline, one row for each rounded baseline that has a text item whose trimmed
  string is not empty. The cells of a row are not empty, they are the trimmed strings of
  the text items of that rounded baseline (as a multiset, with their x), in order of
  increasing x where cells of the same x keep the order of the content; so the order in x
  is weak. The rows of a document are the rows of its pages, page after page.
\<close>

theorem layout_rows:
  "sorted_wrt (>) (map fst (pageRowsXY items)) \<and>
   fst ` set (pageRowsXY items) =
     {round_js (ty f) | f. f \<in> set items \<and> isTextItem f \<and> trim (tstr f) \<noteq> []} \<and>
   (\<forall>(y, cells) \<in> set (pageRowsXY items).
      cells \<noteq> [] \<and> sorted (map fst cells) \<and> (\<forall>c \<in> set cells. snd c \<noteq> []) \<and>
      mset cells =
        {#c \<in># image_mset (\<lambda>f. (tx f, trim (tstr f)))
                 {#f \<in># mset items. isTextItem f \<and> round_js (ty f) = y#}. snd c \<noteq> []#} \<and>
      (\<forall>x. filter (\<lambda>c. fst c = x) cells =
            filter (\<lambda>c. snd c \<noteq> [])
              (map (\<lambda>f. (tx f, trim (tstr f))) (filter (\<lambda>f. tx f = x) (rowsMap items y))))) \<and>
   pageRows items = map (\<lambda>r. map snd (snd r)) (pageRowsXY items) \<and>
   allRows pages = concat (map pageRows pages)"
proof -
  have rows: "\<forall>(y, cells) \<in> set (pageRowsXY items).
      cells \<noteq> [] \<and> sorted (map fst cells) \<and> (\<forall>c \<in> set cells. snd c \<noteq> []) \<and>
      mset cells =
        {#c \<in># image_mset (\<lambda>f. (tx f, trim (tstr f)))
                 {#f \<in># mset items. isTextItem f \<and> round_js (ty f) = y#}. snd c \<noteq> []#} \<and>
      (\<forall>x. filter (\<lambda>c. fst c = x) cells =
            filter (\<lambda>c. snd c \<noteq> [])
              (map (\<lambda>f. (tx f, trim (tstr f))) (filter (\<lambda>f. tx f = x) (rowsMap items y))))"
  proof (clarify, intro conjI allI ballI)
    fix y cells
    assume "(y, cells) \<in> set (pageRowsXY items)"
    then have c: "cells = rowCells items y" and ne: "cells \<noteq> []"
      by (simp_all add: page_row_cells)
    show "cells \<noteq> []" by (rule ne)
    show "sorted (map fst cells)" unfolding c by (rule cells_sorted)
    show "mset cells =
        {#c \<in># image_mset (\<lambda>f. (tx f, trim (tstr f)))
                 {#f \<in># mset items. isTextItem f \<and> round_js (ty f) = y#}. snd c \<noteq> []#}"
      unfolding c by (rule cells_mset)
    show "\<And>x. filter (\<lambda>c. fst c = x) cells =
            filter (\<lambda>c. snd c \<noteq> [])
              (map (\<lambda>f. (tx f, trim (tstr f))) (filter (\<lambda>f. tx f = x) (rowsMap items y)))"
      unfolding c by (rule cells_stable)
    show "\<And>d. d \<in> set cells \<Longrightarrow> snd d \<noteq> []"
      unfolding c by (rule cells_nonempty)
  qed
  show ?thesis
    using rows page_rows_decreasing [of items] page_key_set [of items]
    by (simp only: pageRows_def allRows_def simp_thms)
qed

lemmas layout_eval = pageRowsXY_def pageRows_def allRows_def allRowsXY_def rowCells_def
  rowsMap_def rowKeys_def round_js_def trim_def is_ws_def

theorem layout_rows_witness:
  "sorted_wrt (>) (map fst (pageRowsXY demoPage)) \<and>
   pageRows demoPage = [[''Title''], [''Intro to X'', ''Lecture'']]"
  using layout_rows [of demoPage "[]"]
  by (simp add: demoPage_def layout_eval)

text \<open>
  Two fragments at the same place give a row whose x does not strictly increase, and the
  second page of a document starts again at the top, so that the rounded baselines of
  the document's rows do not decrease.
\<close>

theorem layout_strict_counterexample:
  "pageRowsXY [TextItem 5 700 ''a'', TextItem 5 700 ''b''] = [(700, [(5, ''a''), (5, ''b'')])] \<and>
   \<not> sorted_wrt (<) (map fst [(5 :: real, ''a''), (5, ''b'')]) \<and>
   allRowsXY [[TextItem 0 100 ''a''], [TextItem 0 700 ''b'']] =
     [(100, [(0, ''a'')]), (700, [(0, ''b'')])] \<and>
   \<not> sorted_wrt (>) (map fst [(100 :: int, [(0 :: real, ''a'')]), (700, [(0, ''b'')])])"
  by (simp add: layout_eval)

text \<open>Fragments of no-break spaces trim to the empty string: the cells are dropped, and
  a row of such cells with them.\<close>

lemma layout_no_break_space:
  "pageRows [TextItem 72 700 [CHR 0xA0, CHR 0xA0], TextItem 72 720 ''Title'',
             TextItem 200 720 [CHR 0xA0]] = [[''Title'']]"
  by (simp add: layout_eval)

section \<open>The weekday alignment\<close>


lemma dayToNumber_range: "dayToNumber name = Some t \<Longrightarrow> 1 \<le> t \<and> t \<le> 7"
  by (auto simp: dayToNumber_def split: if_splits)

lemma smod_nonneg: "0 \<le> a \<Longrightarrow> a smod 7 = a mod (7 :: int)"
  by (simp add: signed_modulo_int_def sgn_if)

lemma delta_mod:
  assumes "1 \<le> t" "t \<le> 7" "1 \<le> w" "w \<le> (7 :: int)"
  shows "(t - w + 7) smod 7 = (t - w) mod 7"
proof -
  have "0 \<le> t - w + 7" using assms by linarith
  then have "(t - w + 7) smod 7 = (t - w + 7) mod 7" by (rule smod_nonneg)
  then show ?thesis by simp
qed

lemma fold_min_gen:
  fixes g :: "int \<Rightarrow> int"
  shows "foldl (\<lambda>m t. if lt_js (Num (g t)) m then Num (g t) else m) (Num a) ts =
         Num (Min (insert a (g ` set ts)))"
proof (induction ts arbitrary: a)
  case Nil
  then show ?case by simp
next
  case (Cons t ts)
  have fin: "finite (g ` set ts)" by simp
  have split: "Min (insert a (g ` set (t # ts))) = min a (Min (insert (g t) (g ` set ts)))"
  proof -
    have "Min (insert a (insert (g t) (g ` set ts))) = min a (Min (insert (g t) (g ` set ts)))"
      by (rule Min_insert) (simp_all add: fin)
    then show ?thesis by simp
  qed
  have swap: "Min (insert a (g ` set (t # ts))) = min (g t) (Min (insert a (g ` set ts)))"
  proof -
    have "Min (insert (g t) (insert a (g ` set ts))) = min (g t) (Min (insert a (g ` set ts)))"
      by (rule Min_insert) (simp_all add: fin)
    moreover have "insert a (g ` set (t # ts)) = insert (g t) (insert a (g ` set ts))"
      by auto
    ultimately show ?thesis by simp
  qed
  show ?case
  proof (cases "g t < a")
    case True
    have "Min (insert (g t) (g ` set ts)) \<le> g t"
      by (rule Min_le) (simp_all add: fin)
    with True split have "Min (insert a (g ` set (t # ts))) = Min (insert (g t) (g ` set ts))"
      by linarith
    with True Cons.IH [of "g t"] show ?thesis by simp
  next
    case False
    have "Min (insert a (g ` set ts)) \<le> a"
      by (rule Min_le) (simp_all add: fin)
    with False swap have "Min (insert a (g ` set (t # ts))) = Min (insert a (g ` set ts))"
      by linarith
    with False Cons.IH [of a] show ?thesis by simp
  qed
qed

lemma minDelta_valid:
  assumes "ts \<noteq> []"
  shows "minDelta (DT d ms) ts = Num (Min ((\<lambda>t. (t - ((d + 3) mod 7 + 1) + 7) smod 7) ` set ts))"
proof -
  from assms obtain t ts' where ts: "ts = t # ts'" by (cases ts) auto
  let ?g = "\<lambda>t. (t - ((d + 3) mod 7 + 1) + 7) smod 7"
  have "minDelta (DT d ms) ts =
        foldl (\<lambda>m t. if lt_js (Num (?g t)) m then Num (?g t) else m) (Num (?g t)) ts'"
    unfolding ts minDelta_def by (simp only: foldl.simps weekday.simps delta_js.simps Let_def lt_js.simps if_True)
  also have "\<dots> = Num (Min (insert (?g t) (?g ` set ts')))"
    by (rule fold_min_gen)
  finally show ?thesis unfolding ts by simp
qed





lemma targets_known:
  assumes "\<forall>name \<in> set days. dayToNumber name \<noteq> None"
  shows "List.map_filter dayToNumber days = map (\<lambda>name. the (dayToNumber name)) days"
  using assms by (induction days) (auto simp: List.map_filter_simps)

lemma minDelta_spec:
  assumes "days \<noteq> []" "\<forall>name \<in> set days. dayToNumber name \<noteq> None"
  shows "minDelta (DT d ms) (List.map_filter dayToNumber days) = Num (spec_minShift d days)"
proof -
  let ?w = "(d + 3) mod 7 + 1"
  let ?ts = "map (\<lambda>name. the (dayToNumber name)) days"
  have w: "1 \<le> ?w" "?w \<le> 7" by simp_all
  have ne: "?ts \<noteq> []" using assms(1) by simp
  have "(\<lambda>t. (t - ?w + 7) smod 7) ` set ?ts =
        (\<lambda>name. (the (dayToNumber name) - ?w) mod 7) ` set days"
  proof -
    have "\<And>name. name \<in> set days \<Longrightarrow>
            (the (dayToNumber name) - ?w + 7) smod 7 = (the (dayToNumber name) - ?w) mod 7"
    proof -
      fix name assume "name \<in> set days"
      with assms(2) obtain t where t: "dayToNumber name = Some t" by auto
      from dayToNumber_range [OF t] have "1 \<le> t" "t \<le> 7" by simp_all
      then have "(t - ?w + 7) smod 7 = (t - ?w) mod 7" using w by (rule delta_mod)
      with t show "(the (dayToNumber name) - ?w + 7) smod 7 = (the (dayToNumber name) - ?w) mod 7"
        by simp
    qed
    then show ?thesis by (simp add: image_image cong: image_cong)
  qed
  with minDelta_valid [OF ne, of d ms] show ?thesis
    by (simp only: targets_known [OF assms(2)] spec_minShift_def)
qed


lemma wallClock_midnight: "wallClock h d 0 = 0"
  by (simp add: wallClock_def)

lemma alignTimes_spec:
  assumes "days \<noteq> []" "\<forall>name \<in> set days. dayToNumber name \<noteq> None"
  shows "alignTimes h (DT d ms) endLocal days =
           Inr (spec_moved h (spec_minShift d days) (DT d ms),
                spec_moved h (spec_minShift d days) endLocal)"
proof -
  let ?k = "spec_minShift d days"
  have a: "alignToFirstMatchingWeekday h (DT d ms) days =
             Inr (DT (d + ?k) (wallClock h (d + ?k) ms))"
    using assms(1) by (simp add: alignToFirstMatchingWeekday_def minDelta_spec [OF assms])
  show ?thesis
    by (cases endLocal) (simp_all add: alignTimes_def a spec_moved_def)
qed



section \<open>Finalizing a meeting\<close>

lemma finalize_not_ready: "\<not> ready st \<Longrightarrow> finalizeMeeting h st = Inr st"
  by (auto simp: ready_def finalizeMeeting_def Let_def split: option.splits)

lemma finalize_ready:
  assumes "baseCourse st = Some b" "pendingMeeting st = Some m" "m_day m = Some days"
    "timeStrings m = Some tms" "2 \<le> length (chosenDates m (currentDateStrings st))"
  shows "finalizeMeeting h st =
           (case resolve h b m days tms (chosenDates m (currentDateStrings st)) of
              Inl e \<Rightarrow> Inl e
            | Inr c \<Rightarrow> Inr (st\<lparr>parsedCourses := parsedCourses st @ [c], pendingMeeting := None\<rparr>))"
  using assms by (simp add: finalizeMeeting_def Let_def)

lemma ready_parts:
  assumes "ready st"
  obtains b m days tms where "baseCourse st = Some b" "pendingMeeting st = Some m"
    "m_day m = Some days" "timeStrings m = Some tms"
    "2 \<le> length (chosenDates m (currentDateStrings st))"
  using assms by (auto simp: ready_def split: option.splits)

lemma resolve_fields:
  assumes "resolve h b m days tms dates = Inr c"
  shows "crn c = b_crn b" "title c = b_title b" "details c = b_details b"
    "day c = Some days" "start c \<noteq> None" "c_end c \<noteq> None"
    "until c = Some (untilOf h (dates ! 1))"
    "campus c = m_campus m" "location c = m_location m" "room c = m_room m"
  using assms by (auto simp: resolve_def Let_def split: sum.splits)

lemma resolve_times:
  assumes "resolve h b m days tms dates = Inr c"
  shows "alignTimes h (fromFormat h (tpl dates 0 @ '' '' @ tpl tms 0) ''MM/dd/yyyy hh:mma'')
           (fromFormat h (tpl dates 0 @ '' '' @ tpl tms 1) ''MM/dd/yyyy hh:mma'') days =
         Inr (the (start c), the (c_end c))"
  using assms by (auto simp: resolve_def Let_def split: sum.splits)


lemma untilOf_parsed:
  "fromFormat h s ''MM/dd/yyyy'' = DT d 0 \<Longrightarrow> untilOf h s = minus_ms (DT (d + 1) 0) 1"
  by (simp add: untilOf_def wallClock_midnight)

lemma untilOf_midnight:
  assumes "fromFormat h s ''MM/dd/yyyy'' = DT d 0"
  shows "untilOf h s = DT d 86399999"
  by (simp add: untilOf_parsed [OF assms] msPerDay_def)

lemma timeRow0_until:
  assumes "timeRow0 h cur c row = Inr c1"
  shows "until c1 = Some (untilOf h (tpl cur 1))"
  using assms by (auto simp: timeRow0_def Let_def split: sum.splits)

lemma finalize_emitted:
  assumes "finalizeMeeting h st = Inr st'" "parsedCourses st' \<noteq> parsedCourses st"
    "pendingMeeting st = Some m"
  shows "\<exists>c. parsedCourses st' = parsedCourses st @ [c] \<and>
             until c = Some (untilOf h (chosenDates m (currentDateStrings st) ! 1))"
proof -
  have r: "ready st"
    using assms(1,2) finalize_not_ready [of st h] by auto
  from r obtain b m' days tms where p: "baseCourse st = Some b" "pendingMeeting st = Some m'"
    "m_day m' = Some days" "timeStrings m' = Some tms"
    "2 \<le> length (chosenDates m' (currentDateStrings st))"
    by (rule ready_parts)
  from p(2) assms(3) have mm: "m' = m" by simp
  from assms(1) finalize_ready [OF p, of h] obtain c where
    c: "resolve h b m days tms (chosenDates m (currentDateStrings st)) = Inr c"
    and st': "st' = st\<lparr>parsedCourses := parsedCourses st @ [c], pendingMeeting := None\<rparr>"
    unfolding mm by (auto split: sum.splits)
  from resolve_fields(7) [OF c] st' show ?thesis by simp
qed




text \<open>
  C2. When the second date string parses (format \<open>MM/dd/yyyy\<close>) to civil midnight of day
  \<open>d\<close>, the until of the meeting is that midnight plus one day minus one millisecond, which
  is the last millisecond of day \<open>d\<close> on the civil clock: in the course that
  \<open>finalizeMeeting\<close> pushes, and in the course the positional handler's time row updates.
\<close>

theorem until_last_millisecond:
  assumes "fromFormat h s ''MM/dd/yyyy'' = DT d 0"
  shows "untilOf h s = minus_ms (DT (d + 1) 0) 1 \<and>
         untilOf h s = DT d 86399999 \<and>
         (\<forall>st st' m. finalizeMeeting h st = Inr st' \<and> parsedCourses st' \<noteq> parsedCourses st \<and>
              pendingMeeting st = Some m \<and> chosenDates m (currentDateStrings st) ! 1 = s \<longrightarrow>
              (\<exists>c. parsedCourses st' = parsedCourses st @ [c] \<and> until c = Some (DT d 86399999))) \<and>
         (\<forall>cur c row c1. timeRow0 h cur c row = Inr c1 \<and> tpl cur 1 = s \<longrightarrow>
              until c1 = Some (DT d 86399999))"
proof (intro conjI allI impI)
  show "untilOf h s = minus_ms (DT (d + 1) 0) 1"
    by (rule untilOf_parsed [OF assms])
  show u: "untilOf h s = DT d 86399999"
    by (rule untilOf_midnight [OF assms])
  show "\<exists>c. parsedCourses st' = parsedCourses st @ [c] \<and> until c = Some (DT d 86399999)"
    if "finalizeMeeting h st = Inr st' \<and> parsedCourses st' \<noteq> parsedCourses st \<and>
        pendingMeeting st = Some m \<and> chosenDates m (currentDateStrings st) ! 1 = s"
    for st st' :: "'a pstate" and m
    using finalize_emitted [of h st st' m] that u by auto
  show "until c1 = Some (DT d 86399999)"
    if "timeRow0 h cur c row = Inr c1 \<and> tpl cur 1 = s"
    for cur row and c c1 :: "'a Course"
    using timeRow0_until [of h cur c row c1] that u by auto
qed

theorem until_last_millisecond_witness:
  "untilOf demoHost ''04/25/2025'' = DT 20203 86399999 \<and>
   civil 20203 = (2025, 4, 25) \<and>
   toRRuleUntilUTC demoHost (DT 20203 86399999) = ''20250426T035959Z''"
proof -
  have p: "fromFormat demoHost ''04/25/2025'' ''MM/dd/yyyy'' = DT 20203 0"
    by code_simp
  have c: "civil 20203 = (2025, 4, 25)"
    by code_simp
  have f: "toRRuleUntilUTC demoHost (DT 20203 86399999) = ''20250426T035959Z''"
    by code_simp
  from until_last_millisecond [OF p]
  have "untilOf demoHost ''04/25/2025'' = DT 20203 86399999"
    by (rule conjunct1 [OF conjunct2])
  with c f show ?thesis by (intro conjI)
qed

lemma split_nonempty: "split sep s \<noteq> []"
  by (induction s) (auto split: list.splits)

lemma dayKept_spread: "dayKept pm \<Longrightarrow> m_day (spread pm) \<noteq> Some []"
  by (auto simp: dayKept_def spread_def noMeeting_def split: option.splits)

lemma resolve_complete:
  assumes "resolve h b m days tms dates = Inr c" "days \<noteq> []"
  shows "complete c"
  using resolve_fields [OF assms(1)] assms(2) by (simp add: complete_def)

lemma finalize_inv:
  assumes "inv st" "finalizeMeeting h st = Inr st'"
  shows "inv st'"
proof (cases "ready st")
  case False
  with assms show ?thesis by (simp add: finalize_not_ready)
next
  case True
  then obtain b m days tms where p: "baseCourse st = Some b" "pendingMeeting st = Some m"
    "m_day m = Some days" "timeStrings m = Some tms"
    "2 \<le> length (chosenDates m (currentDateStrings st))"
    by (rule ready_parts)
  from assms(2) finalize_ready [OF p, of h] obtain c where
    c: "resolve h b m days tms (chosenDates m (currentDateStrings st)) = Inr c"
    and st': "st' = st\<lparr>parsedCourses := parsedCourses st @ [c], pendingMeeting := None\<rparr>"
    by (auto split: sum.splits)
  from assms(1) p(2,3) have "days \<noteq> []" by (auto simp: inv_def dayKept_def)
  with c have "complete c" by (rule resolve_complete)
  with assms(1) show ?thesis by (simp add: st' inv_def dayKept_def)
qed

lemma finalize_pending:
  assumes "finalizeMeeting h st = Inr st'"
  shows "pendingMeeting st' = None \<or> pendingMeeting st' = pendingMeeting st"
proof (cases "ready st")
  case False
  with assms show ?thesis by (simp add: finalize_not_ready)
next
  case True
  then obtain b m days tms where p: "baseCourse st = Some b" "pendingMeeting st = Some m"
    "m_day m = Some days" "timeStrings m = Some tms"
    "2 \<le> length (chosenDates m (currentDateStrings st))"
    by (rule ready_parts)
  from assms finalize_ready [OF p, of h] show ?thesis
    by (auto split: sum.splits)
qed

lemma locate_day: "m_day (locate pm t) = m_day (spread pm)"
  by (simp add: locate_def split: sum.splits prod.splits)

lemma inv_parts:
  "inv st \<Longrightarrow> list_all complete (parsedCourses st)"
  "inv st \<Longrightarrow> m_day (spread (pendingMeeting st)) \<noteq> Some []"
  by (simp_all add: inv_def dayKept_spread)

lemma inv_pending:
  "list_all complete (parsedCourses st) \<Longrightarrow> pendingMeeting st = Some m \<Longrightarrow> m_day m \<noteq> Some []
     \<Longrightarrow> inv st"
  by (simp add: inv_def dayKept_def)

lemma headerRow_inv:
  assumes "inv st" "headerRow h st row = Inr st'"
  shows "inv st'"
proof -
  from assms(2) obtain st1 where f: "finalizeMeeting h st = Inr st1"
    and c: "parsedCourses st' = parsedCourses st1" and p: "pendingMeeting st' = None"
    by (auto simp: headerRow_def Let_def split: sum.splits)
  from finalize_inv [OF assms(1) f] c p show ?thesis
    by (simp add: inv_def dayKept_def)
qed

lemma dateRow_inv:
  assumes "inv st" "dateRow h st t = Inr st'"
  shows "inv st'"
proof -
  from assms(2) obtain st1 ds where f: "finalizeMeeting h st = Inr st1"
    and c: "parsedCourses st' = parsedCourses st1"
    and p: "pendingMeeting st' = Some ((spread (pendingMeeting st1))\<lparr>dateStrings := Some ds\<rparr>)"
    by (auto simp: dateRow_def Let_def split: sum.splits)
  note i = finalize_inv [OF assms(1) f]
  show ?thesis
    by (rule inv_pending [OF _ p]) (simp_all add: c inv_parts [OF i])
qed

lemma dayRow_inv:
  assumes "inv st" "dayRow h st t = Inr st'"
  shows "inv st'"
proof -
  define st0 where "st0 = (if m_day (spread (pendingMeeting st)) \<noteq> None \<and>
       timeStrings (spread (pendingMeeting st)) \<noteq> None then finalizeMeeting h st else Inr st)"
  from assms(2) obtain st1 where f: "st0 = Inr st1"
    and st': "st' = st1\<lparr>pendingMeeting :=
        Some ((spread (pendingMeeting st1))\<lparr>m_day := Some (map trim (split CHR '','' t))\<rparr>)\<rparr>"
    unfolding dayRow_def st0_def [symmetric] by (cases st0) simp_all
  from f have "finalizeMeeting h st = Inr st1 \<or> st1 = st"
    unfolding st0_def by (simp split: if_splits)
  with assms(1) have i: "inv st1" by (auto intro: finalize_inv)
  have p: "pendingMeeting st' =
             Some ((spread (pendingMeeting st1))\<lparr>m_day := Some (map trim (split CHR '','' t))\<rparr>)"
    by (simp add: st')
  show ?thesis
    by (rule inv_pending [OF _ p]) (simp_all add: st' inv_parts [OF i] split_nonempty)
qed

lemma timeRow_inv: "inv st \<Longrightarrow> inv (timeRow st t)"
  by (rule inv_pending [where m = "(spread (pendingMeeting st))
        \<lparr>timeStrings := Some (map trim (split2 CHR ''-'' (strip_ws t)))\<rparr>"])
    (simp_all add: timeRow_def inv_parts)

lemma locationRow_inv: "inv st \<Longrightarrow> inv (locationRow st t)"
  by (rule inv_pending [where m = "locate (pendingMeeting st) t"])
    (simp_all add: locationRow_def locate_day inv_parts)

lemma step_branches:
  assumes "step h st row = Inr st'"
  obtains (hdr) "headerRow h st row = Inr st'"
    | (date) "dateRow h st (trim (join '' '' row)) = Inr st'"
    | (day) "dayRow h st (trim (join '' '' row)) = Inr st'"
    | (time) "st' = timeRow st (trim (join '' '' row))"
    | (loc) "isLocationRow (pendingMeeting st) row (trim (join '' '' row))"
        "st' = locationRow st (trim (join '' '' row))"
    | (same) "st' = st"
proof (cases "(length row = 5 \<or> length row = 6) \<and> row ! 0 \<noteq> ''Title''")
  case True
  from assms have "headerRow h st row = Inr st'"
    unfolding step_def if_P [OF True] .
  then show ?thesis by (rule hdr)
next
  case False
  define t where "t = trim (join '' '' row)"
  from assms have s: "(if t = [] then Inr st
         else if dateRangeRegex t then dateRow h st t
         else if isDayRow t then dayRow h st t
         else if isTimeRow t then Inr (timeRow st t)
         else if isLocationRow (pendingMeeting st) row t then Inr (locationRow st t)
         else Inr st) = Inr st'"
    unfolding step_def if_not_P [OF False] Let_def t_def [symmetric] .
  show ?thesis
  proof (cases "t = []")
    case True
    from s have "Inr st = (Inr st' :: error + 'a pstate)" unfolding if_P [OF True] .
    then have "st' = st" by (simp only: sum.inject)
    then show ?thesis by (rule same)
  next
    case ne: False
    show ?thesis
    proof (cases "dateRangeRegex t")
      case True
      from s have "dateRow h st t = Inr st'" unfolding if_not_P [OF ne] if_P [OF True] .
      then show ?thesis unfolding t_def by (rule date)
    next
      case nd: False
      show ?thesis
      proof (cases "isDayRow t")
        case True
        from s have "dayRow h st t = Inr st'"
          unfolding if_not_P [OF ne] if_not_P [OF nd] if_P [OF True] .
        then show ?thesis unfolding t_def by (rule day)
      next
        case ny: False
        show ?thesis
        proof (cases "isTimeRow t")
          case True
          from s have "Inr (timeRow st t) = (Inr st' :: error + 'a pstate)"
            unfolding if_not_P [OF ne] if_not_P [OF nd] if_not_P [OF ny] if_P [OF True] .
          then have "st' = timeRow st t" by (simp only: sum.inject)
          then show ?thesis unfolding t_def by (rule time)
        next
          case nt: False
          show ?thesis
          proof (cases "isLocationRow (pendingMeeting st) row t")
            case True
            from s have "Inr (locationRow st t) = (Inr st' :: error + 'a pstate)"
              unfolding if_not_P [OF ne] if_not_P [OF nd] if_not_P [OF ny] if_not_P [OF nt]
                if_P [OF True] .
            then have e: "st' = locationRow st t" by (simp only: sum.inject)
            from True e show ?thesis unfolding t_def by (rule loc)
          next
            case False
            from s have "Inr st = (Inr st' :: error + 'a pstate)"
              unfolding if_not_P [OF ne] if_not_P [OF nd] if_not_P [OF ny] if_not_P [OF nt]
                if_not_P [OF False] .
            then have "st' = st" by (simp only: sum.inject)
            then show ?thesis by (rule same)
          qed
        qed
      qed
    qed
  qed
qed

lemma step_inv:
  assumes "inv st" "step h st row = Inr st'"
  shows "inv st'"
  using assms(2)
proof (cases rule: step_branches)
  case hdr
  with assms(1) show ?thesis by (rule headerRow_inv)
next
  case date
  with assms(1) show ?thesis by (rule dateRow_inv)
next
  case day
  with assms(1) show ?thesis by (rule dayRow_inv)
next
  case time
  with assms(1) show ?thesis by (simp only: timeRow_inv)
next
  case loc
  with assms(1) show ?thesis by (simp only: locationRow_inv)
next
  case same
  with assms(1) show ?thesis by (simp only:)
qed

lemma steps_inv:
  "inv st \<Longrightarrow> steps h st rows = Inr st' \<Longrightarrow> inv st'"
proof (induction rows arbitrary: st)
  case Nil
  then show ?case by simp
next
  case (Cons row rows)
  from Cons.prems(2) obtain st1 where s: "step h st row = Inr st1" "steps h st1 rows = Inr st'"
    by (auto split: sum.splits)
  from Cons.prems(1) s(1) have "inv st1" by (rule step_inv)
  then show ?case using s(2) by (rule Cons.IH)
qed

lemma inv_init: "inv initState"
  by (simp add: inv_def initState_def dayKept_def)

lemma assemble_complete:
  assumes "assemble h rows = Inr cs"
  shows "list_all complete cs"
proof -
  from assms obtain st st1 where s: "steps h initState rows = Inr st"
    and f: "finalizeMeeting h st = Inr st1" and cs: "cs = parsedCourses st1"
    by (auto simp: assemble_def split: sum.splits)
  from steps_inv [OF inv_init s] have "inv st" .
  from finalize_inv [OF this f] show ?thesis by (simp add: cs inv_def)
qed

lemma ready_iff:
  "ready st \<longleftrightarrow>
     (\<exists>b m days tms. baseCourse st = Some b \<and> pendingMeeting st = Some m \<and>
        m_day m = Some days \<and> timeStrings m = Some tms \<and>
        2 \<le> length (chosenDates m (currentDateStrings st)))"
  by (auto simp: ready_def split: option.splits)

lemma finalize_result:
  assumes "finalizeMeeting h st = Inr st'"
  shows "(\<not> ready st \<and> st' = st) \<or>
         (ready st \<and> (\<exists>c. st' = st\<lparr>parsedCourses := parsedCourses st @ [c], pendingMeeting := None\<rparr> \<and>
            crn c = b_crn (the (baseCourse st)) \<and> title c = b_title (the (baseCourse st)) \<and>
            details c = b_details (the (baseCourse st)) \<and>
            day c = m_day (the (pendingMeeting st)) \<and>
            campus c = m_campus (the (pendingMeeting st)) \<and>
            location c = m_location (the (pendingMeeting st)) \<and>
            room c = m_room (the (pendingMeeting st))))"
proof (cases "ready st")
  case False
  with assms show ?thesis by (simp add: finalize_not_ready)
next
  case True
  then obtain b m days tms where p: "baseCourse st = Some b" "pendingMeeting st = Some m"
    "m_day m = Some days" "timeStrings m = Some tms"
    "2 \<le> length (chosenDates m (currentDateStrings st))"
    by (rule ready_parts)
  from assms finalize_ready [OF p, of h] obtain c where
    c: "resolve h b m days tms (chosenDates m (currentDateStrings st)) = Inr c"
    and st': "st' = st\<lparr>parsedCourses := parsedCourses st @ [c], pendingMeeting := None\<rparr>"
    by (auto split: sum.splits)
  note f = resolve_fields [OF c]
  from True st' p(1,2,3) f(1,2,3,4,8,9,10) show ?thesis by auto
qed

lemma steps_day_nonempty:
  assumes "steps h initState rows = Inr st" "pendingMeeting st = Some m"
  shows "m_day m \<noteq> Some []"
proof -
  from steps_inv [OF inv_init assms(1)] have "inv st" .
  with assms(2) show ?thesis by (simp add: inv_def dayKept_def)
qed

lemma resolve_returns:
  assumes "days \<noteq> []" "\<forall>name \<in> set days. dayToNumber name \<noteq> None"
    and "fromFormat h (tpl dates 0 @ '' '' @ tpl tms 0) ''MM/dd/yyyy hh:mma'' = DT d ms"
  shows "\<exists>c. resolve h b m days tms dates = Inr c"
proof -
  have a: "\<exists>p. alignTimes h
             (fromFormat h (tpl dates 0 @ '' '' @ tpl tms 0) ''MM/dd/yyyy hh:mma'') endLocal days =
             Inr p" for endLocal
    unfolding assms(3) alignTimes_spec [OF assms(1,2)] by blast
  then obtain p where "alignTimes h
      (fromFormat h (tpl dates 0 @ '' '' @ tpl tms 0) ''MM/dd/yyyy hh:mma'')
      (fromFormat h (tpl dates 0 @ '' '' @ tpl tms 1) ''MM/dd/yyyy hh:mma'') days = Inr p"
    by blast
  then show ?thesis
    unfolding resolve_def Let_def by (cases p) simp
qed

lemma finalize_emits:
  assumes "baseCourse st = Some b" "pendingMeeting st = Some m" "m_day m = Some days"
    "timeStrings m = Some tms" "2 \<le> length (chosenDates m (currentDateStrings st))"
    and "days \<noteq> []" "\<forall>name \<in> set days. dayToNumber name \<noteq> None"
    and "fromFormat h (tpl (chosenDates m (currentDateStrings st)) 0 @ '' '' @ tpl tms 0)
           ''MM/dd/yyyy hh:mma'' = DT d ms"
  shows "\<exists>st'. finalizeMeeting h st = Inr st' \<and> parsedCourses st' \<noteq> parsedCourses st"
proof -
  from resolve_returns [OF assms(6,7,8), of b m] obtain c where
    "resolve h b m days tms (chosenDates m (currentDateStrings st)) = Inr c" by blast
  then show ?thesis by (simp add: finalize_ready [OF assms(1-5)])
qed

text \<open>
  C3, as the code has it. When there is a current base course and the pending meeting
  has a day-set that is not empty, a pair of time strings and at least two date strings
  (its own when they are at least two, else the current ones), a \<open>finalizeMeeting\<close> that
  returns has pushed one course: it carries the base course's fields and the meeting's
  days and location fields, and the pending meeting is cleared. When there is no base
  course, no pending meeting, no day-set, no time strings, or fewer than two date strings,
  \<open>finalizeMeeting\<close> returns without an error and leaves the state as it was, so no course
  is pushed. Every day-set the loop builds is not empty. And \<open>finalizeMeeting\<close> does
  return, with the course pushed, when in the first case the day-set holds recognised
  weekday names and the start parses.
\<close>

theorem meeting_emission:
  "(\<forall>st' b m days t1 t2.
      finalizeMeeting h st = Inr st' \<and>
      baseCourse st = Some b \<and> pendingMeeting st = Some m \<and>
      m_day m = Some days \<and> days \<noteq> [] \<and> timeStrings m = Some [t1, t2] \<and>
      2 \<le> length (chosenDates m (currentDateStrings st)) \<longrightarrow>
      (\<exists>c. st' = st\<lparr>parsedCourses := parsedCourses st @ [c], pendingMeeting := None\<rparr> \<and>
           crn c = b_crn b \<and> title c = b_title b \<and> details c = b_details b \<and>
           day c = Some days \<and> campus c = m_campus m \<and> location c = m_location m \<and>
           room c = m_room m)) \<and>
   (baseCourse st = None \<or> pendingMeeting st = None \<or>
    (\<exists>m. pendingMeeting st = Some m \<and>
         (m_day m = None \<or> timeStrings m = None \<or>
          length (chosenDates m (currentDateStrings st)) < 2)) \<longrightarrow>
      finalizeMeeting h st = Inr st) \<and>
   (\<forall>rows st1 m. steps h initState rows = Inr st1 \<and> pendingMeeting st1 = Some m \<longrightarrow>
      m_day m \<noteq> Some []) \<and>
   (\<forall>b m days t1 t2 d ms.
      baseCourse st = Some b \<and> pendingMeeting st = Some m \<and> m_day m = Some days \<and>
      timeStrings m = Some [t1, t2] \<and> 2 \<le> length (chosenDates m (currentDateStrings st)) \<and>
      days \<noteq> [] \<and> (\<forall>name \<in> set days. dayToNumber name \<noteq> None) \<and>
      fromFormat h (tpl (chosenDates m (currentDateStrings st)) 0 @ '' '' @ t1)
        ''MM/dd/yyyy hh:mma'' = DT d ms \<longrightarrow>
      (\<exists>st'. finalizeMeeting h st = Inr st' \<and> parsedCourses st' \<noteq> parsedCourses st))"
proof -
  have 1: "\<exists>c. st' = st\<lparr>parsedCourses := parsedCourses st @ [c], pendingMeeting := None\<rparr> \<and>
           crn c = b_crn b \<and> title c = b_title b \<and> details c = b_details b \<and>
           day c = Some days \<and> campus c = m_campus m \<and> location c = m_location m \<and>
           room c = m_room m"
    if "finalizeMeeting h st = Inr st' \<and>
      baseCourse st = Some b \<and> pendingMeeting st = Some m \<and>
      m_day m = Some days \<and> days \<noteq> [] \<and> timeStrings m = Some [t1, t2] \<and>
      2 \<le> length (chosenDates m (currentDateStrings st))"
    for st' b m days t1 t2
  proof -
    from that have r: "ready st" unfolding ready_iff by blast
    from that have f: "finalizeMeeting h st = Inr st'" by blast
    from finalize_result [OF f] r that show ?thesis by auto
  qed
  have 2: "finalizeMeeting h st = Inr st"
    if "baseCourse st = None \<or> pendingMeeting st = None \<or>
        (\<exists>m. pendingMeeting st = Some m \<and>
           (m_day m = None \<or> timeStrings m = None \<or>
            length (chosenDates m (currentDateStrings st)) < 2))"
  proof -
    from that have "\<not> ready st" unfolding ready_iff by auto
    then show ?thesis by (rule finalize_not_ready)
  qed
  have 3: "m_day m \<noteq> Some []"
    if "steps h initState rows = Inr st1 \<and> pendingMeeting st1 = Some m"
    for rows and st1 :: "'a pstate" and m
    using steps_day_nonempty [of h rows st1 m] that by blast
  have 4: "\<exists>st'. finalizeMeeting h st = Inr st' \<and> parsedCourses st' \<noteq> parsedCourses st"
    if "baseCourse st = Some b \<and> pendingMeeting st = Some m \<and> m_day m = Some days \<and>
      timeStrings m = Some [t1, t2] \<and> 2 \<le> length (chosenDates m (currentDateStrings st)) \<and>
      days \<noteq> [] \<and> (\<forall>name \<in> set days. dayToNumber name \<noteq> None) \<and>
      fromFormat h (tpl (chosenDates m (currentDateStrings st)) 0 @ '' '' @ t1)
        ''MM/dd/yyyy hh:mma'' = DT d ms"
    for b m days t1 t2 d ms
  proof -
    have t: "tpl [t1, t2] 0 = t1" by (simp add: tpl_def)
    from that show ?thesis
      using finalize_emits [of st b m days "[t1, t2]" h d ms] unfolding t by blast
  qed
  from 1 2 3 4 show ?thesis by blast
qed

theorem meeting_emission_witness:
  "finalizeMeeting demoHost demoState =
     Inr (demoState\<lparr>parsedCourses := [demoCourse], pendingMeeting := None\<rparr>) \<and>
   pendingMeeting demoState = Some demoMeeting \<and>
   m_day demoMeeting = Some [''Wednesday'', ''Monday''] \<and>
   timeStrings demoMeeting = Some [''09:00AM'', ''09:50AM''] \<and>
   length (chosenDates demoMeeting (currentDateStrings demoState)) = 2 \<and>
   day demoCourse = Some [''Wednesday'', ''Monday''] \<and>
   finalizeMeeting demoHost (demoState\<lparr>pendingMeeting := None\<rparr>) =
     Inr (demoState\<lparr>pendingMeeting := None\<rparr>)"
proof -
  have e: "finalizeMeeting demoHost demoState =
             Inr (demoState\<lparr>parsedCourses := [demoCourse], pendingMeeting := None\<rparr>)"
    by code_simp
  have p: "baseCourse demoState =
             Some \<lparr>b_crn = 12345, b_title = ''Intro to X'', b_details = ''Lecture''\<rparr>"
    "pendingMeeting demoState = Some demoMeeting"
    "m_day demoMeeting = Some [''Wednesday'', ''Monday'']"
    "[''Wednesday'', ''Monday''] \<noteq> []"
    "timeStrings demoMeeting = Some [''09:00AM'', ''09:50AM'']"
    by (simp_all add: demoState_def demoMeeting_def)
  have l: "length (chosenDates demoMeeting (currentDateStrings demoState)) = 2"
    by (simp add: chosenDates_def demoMeeting_def demoState_def)
  then have l2: "2 \<le> length (chosenDates demoMeeting (currentDateStrings demoState))"
    by simp
  from meeting_emission [of demoHost demoState] e p l2
  have "\<exists>c. demoState\<lparr>parsedCourses := [demoCourse], pendingMeeting := None\<rparr> =
             demoState\<lparr>parsedCourses := parsedCourses demoState @ [c], pendingMeeting := None\<rparr> \<and>
           day c = Some [''Wednesday'', ''Monday'']"
    by blast
  then have d: "day demoCourse = Some [''Wednesday'', ''Monday'']"
    by (simp add: demoCourse_def)
  have "pendingMeeting (demoState\<lparr>pendingMeeting := None\<rparr>) = None"
    by simp
  with meeting_emission [of demoHost "demoState\<lparr>pendingMeeting := None\<rparr>"]
  have n: "finalizeMeeting demoHost (demoState\<lparr>pendingMeeting := None\<rparr>) =
             Inr (demoState\<lparr>pendingMeeting := None\<rparr>)"
    by blast
  from e p l d n show ?thesis by (intro conjI)
qed

text \<open>
  A meeting with a day-set, a time pair and two date strings that is not emitted: the rows
  come before any course row, so there is no base course, and \<open>finalizeMeeting\<close> returns at
  its first guard.
\<close>

theorem orphan_meeting_counterexample:
  "steps demoHost initState orphanRows = Inr orphanState \<and>
   pendingMeeting orphanState = Some orphanMeeting \<and>
   m_day orphanMeeting = Some [''Monday''] \<and>
   timeStrings orphanMeeting = Some [''09:00AM'', ''09:50AM''] \<and>
   chosenDates orphanMeeting (currentDateStrings orphanState) = [''01/06/2025'', ''04/25/2025''] \<and>
   finalizeMeeting demoHost orphanState = Inr orphanState \<and>
   assemble demoHost orphanRows = Inr []"
proof -
  have 1: "steps demoHost initState orphanRows = Inr orphanState"
    by code_simp
  have 2: "finalizeMeeting demoHost orphanState = Inr orphanState"
    by (simp add: finalizeMeeting_def orphanState_def)
  have 3: "assemble demoHost orphanRows = Inr []"
    by (simp add: assemble_def 1 2) (simp add: orphanState_def)
  have 4: "chosenDates orphanMeeting (currentDateStrings orphanState) =
             [''01/06/2025'', ''04/25/2025'']"
    by (simp add: chosenDates_def orphanMeeting_def orphanState_def)
  from 1 2 3 4 show ?thesis
    by (simp add: orphanState_def orphanMeeting_def)
qed

lemma complete_exportable: "complete c \<Longrightarrow> selectable c \<and> eventLocal h c \<noteq> None"
  by (auto simp: complete_def selectable_def eventLocal_def split: option.splits)

lemma complete_fields:
  "complete c \<Longrightarrow>
     (\<exists>ds. day c = Some ds \<and> ds \<noteq> []) \<and> start c \<noteq> None \<and> c_end c \<noteq> None \<and> until c \<noteq> None"
  by (auto simp: complete_def split: option.splits)

lemma map_filter_keeps_all:
  "\<forall>x \<in> set xs. f x \<noteq> None \<Longrightarrow> length (List.map_filter f xs) = length xs"
  by (induction xs) (auto simp: List.map_filter_simps split: option.splits)

lemma parseRows_courses:
  assumes "parseRows h a rows = (a', e)"
  shows "courses a' = courses a \<or> list_all complete (courses a')"
proof -
  define headIdx where "headIdx = findIndex (firstIs ''Title'') rows"
  define tailIdx where "tailIdx = findIndex (firstIs ''Total Hours'') rows"
  define validRows where "validRows = slice rows (headIdx + 1) tailIdx"
  have n: "courses (nameAbove a rows headIdx) = courses a"
    by (simp add: nameAbove_def split: option.splits)
  show ?thesis
  proof (cases "assemble h validRows")
    case (Inl err)
    with assms n show ?thesis
      unfolding parseRows_def headIdx_def [symmetric] tailIdx_def [symmetric] Let_def
        validRows_def [symmetric]
      by (auto split: if_splits)
  next
    case (Inr cs)
    from assemble_complete [OF Inr] have "list_all complete cs" .
    with assms n Inr show ?thesis
      unfolding parseRows_def headIdx_def [symmetric] tailIdx_def [symmetric] Let_def
        validRows_def [symmetric]
      by (auto split: if_splits)
  qed
qed

text \<open>
  C10. Every course in the list the classifying handler gives to \<open>setCourses\<close> has a
  day-set that is not empty, a start, an end and an until; so it is selectable, its event
  is built, and the events of any selection from the list are as many as the selection.
  A run of the handler leaves the course list as it was or replaces it by such a list.
\<close>

theorem parsed_courses_complete:
  "(\<forall>cs. assemble h rows = Inr cs \<longrightarrow>
      (\<forall>c \<in> set cs. (\<exists>ds. day c = Some ds \<and> ds \<noteq> []) \<and> start c \<noteq> None \<and>
                     c_end c \<noteq> None \<and> until c \<noteq> None \<and>
                     selectable c \<and> eventLocal h c \<noteq> None) \<and>
      (\<forall>sel. set sel \<subseteq> set cs \<longrightarrow>
             length (List.map_filter (eventLocal h) sel) = length sel)) \<and>
   (\<forall>a a' e. parseRows h a rows = (a', e) \<longrightarrow>
      courses a' = courses a \<or>
      (\<forall>c \<in> set (courses a'). (\<exists>ds. day c = Some ds \<and> ds \<noteq> []) \<and> start c \<noteq> None \<and>
                     c_end c \<noteq> None \<and> until c \<noteq> None))"
proof -
  have 1: "(\<exists>ds. day c = Some ds \<and> ds \<noteq> []) \<and> start c \<noteq> None \<and>
             c_end c \<noteq> None \<and> until c \<noteq> None \<and> selectable c \<and> eventLocal h c \<noteq> None"
    if a: "assemble h rows = Inr cs" and c: "c \<in> set cs" for cs c
  proof -
    from assemble_complete [OF a] c have "complete c" by (simp add: list_all_iff)
    then show ?thesis
      using complete_exportable [of c h] complete_fields [of c] by blast
  qed
  have 2: "length (List.map_filter (eventLocal h) sel) = length sel"
    if a: "assemble h rows = Inr cs" and s: "set sel \<subseteq> set cs" for cs sel
  proof -
    have "\<forall>c \<in> set sel. eventLocal h c \<noteq> None"
    proof
      fix c assume "c \<in> set sel"
      with s have "c \<in> set cs" by blast
      from 1 [OF a this] show "eventLocal h c \<noteq> None" by blast
    qed
    then show ?thesis by (rule map_filter_keeps_all)
  qed
  have 3: "courses a' = courses a \<or>
      (\<forall>c \<in> set (courses a'). (\<exists>ds. day c = Some ds \<and> ds \<noteq> []) \<and> start c \<noteq> None \<and>
                     c_end c \<noteq> None \<and> until c \<noteq> None)"
    if p: "parseRows h a rows = (a', e)" for a a' :: "'a app" and e
    using parseRows_courses [OF p] complete_fields by (auto simp: list_all_iff)
  from 1 2 3 show ?thesis by blast
qed

theorem parsed_courses_complete_witness:
  "assemble demoHost demoBody = Inr [demoCourse] \<and>
   selectable demoCourse \<and> until demoCourse \<noteq> None \<and>
   length (List.map_filter (eventLocal demoHost) [demoCourse]) = 1"
proof -
  have a: "assemble demoHost demoBody = Inr [demoCourse]"
    by code_simp
  from parsed_courses_complete [of demoHost demoBody] a
  have "(\<forall>c \<in> set [demoCourse]. (\<exists>ds. day c = Some ds \<and> ds \<noteq> []) \<and> start c \<noteq> None \<and>
                     c_end c \<noteq> None \<and> until c \<noteq> None \<and>
                     selectable c \<and> eventLocal demoHost c \<noteq> None) \<and>
      (\<forall>sel. set sel \<subseteq> set [demoCourse] \<longrightarrow>
             length (List.map_filter (eventLocal demoHost) sel) = length sel)"
    by blast
  then have "selectable demoCourse \<and> until demoCourse \<noteq> None"
    and "length (List.map_filter (eventLocal demoHost) [demoCourse]) = length [demoCourse]"
    by auto
  with a show ?thesis by simp
qed

section \<open>The events of a selection\<close>

lemma printed_spec:
  "printed h (dayToByday d) =
     (case map_of spec_bydayCodes d of
        Some code \<Rightarrow> code
      | None \<Rightarrow> if d \<in> set objectPrototypeKeys then inheritedString h d else [])"
  by (simp add: spec_bydayCodes_def dayToByday_def printed_def)

lemma format_spec:
  "toFormatBasic dt =
     (case dt of
        InvalidDT \<Rightarrow> ''Invalid DateTime''
      | DT d ms \<Rightarrow>
          pad 4 (fst (civil d)) @ pad 2 (fst (snd (civil d))) @ pad 2 (snd (snd (civil d))) @
          ''T'' @ pad 2 (ms div 3600000) @ pad 2 (ms div 60000 mod 60) @
          pad 2 (ms div 1000 mod 60) @ ''Z'')"
  by (cases dt) (simp_all split: prod.splits)

lemma rruleString_spec: "rruleString h ds u = spec_rrule h ds u"
  unfolding rruleString_def spec_rrule_def byDays_def toRRuleUntilUTC_def
  by (simp only: printed_spec format_spec)

lemma eventLocal_rule:
  assumes "day c = Some ds" "start c = Some s" "c_end c = Some e" "until c = Some u"
  shows "\<exists>ev. eventLocal h c = Some ev \<and> recurrenceRule ev = spec_rrule h ds u"
  using assms by (simp add: eventLocal_def rruleString_spec)

lemma eventUTC_rule:
  assumes "day c = Some ds" "start c = Some s" "c_end c = Some e" "until c = Some u"
  shows "\<exists>ev. eventUTC h c = Some ev \<and> recurrenceRule ev = spec_rrule h ds u"
  using assms by (simp add: eventUTC_def rruleString_spec)

lemma eventLocal_none:
  "\<not> (day c \<noteq> None \<and> start c \<noteq> None \<and> c_end c \<noteq> None \<and> until c \<noteq> None) \<Longrightarrow>
     eventLocal h c = None"
  by (auto simp: eventLocal_def split: option.splits)

lemma eventUTC_none:
  "\<not> (day c \<noteq> None \<and> start c \<noteq> None \<and> c_end c \<noteq> None \<and> until c \<noteq> None) \<Longrightarrow>
     eventUTC h c = None"
  by (auto simp: eventUTC_def split: option.splits)

lemma rules_of_events:
  assumes "\<And>c. \<not> p c \<Longrightarrow> f c = None"
    and "\<And>c. p c \<Longrightarrow> \<exists>ev. f c = Some ev \<and> recurrenceRule ev = g c"
  shows "map recurrenceRule (List.map_filter f cs) = map g (filter p cs)"
proof (induction cs)
  case Nil
  show ?case by simp
next
  case (Cons c cs)
  show ?case
  proof (cases "p c")
    case True
    from assms(2) [OF True] obtain ev where "f c = Some ev" "recurrenceRule ev = g c" by blast
    with True Cons show ?thesis by simp
  next
    case False
    from assms(1) [OF False] False Cons show ?thesis by simp
  qed
qed

text \<open>
  C7, as the code has it. A course with a day-set, a start, an end and an until has an
  event in both files, and its recurrence rule is \<open>FREQ=WEEKLY;BYDAY=\<close>, one text for each
  entry of the day-set joined by commas in the order of the day-set, \<open>;INTERVAL=1;UNTIL=\<close>
  and the text of the until. The download handlers of both files give the rules of the
  selected courses that have the four fields, in the order of the selection. When the
  day-set holds weekday names only and the until is a valid date-time, the texts are the
  two-letter codes and the until on the UTC clock as \<open>yyyyMMdd'T'HHmmss'Z'\<close>: year, month,
  day, \<open>T\<close>, hour, minute, second, \<open>Z\<close>, each padded with zeros. When the until is not a
  valid date-time the rule ends in \<open>UNTIL=Invalid DateTime\<close>.
\<close>

theorem recurrence_rule:
  "(\<forall>ds s e u. day c = Some ds \<and> start c = Some s \<and> c_end c = Some e \<and> until c = Some u \<longrightarrow>
      (\<exists>ev. eventLocal h c = Some ev \<and> recurrenceRule ev = spec_rrule h ds u) \<and>
      (\<exists>ev. eventUTC h c = Some ev \<and> recurrenceRule ev = spec_rrule h ds u)) \<and>
   (selectedCourses a \<noteq> [] \<longrightarrow>
      (\<exists>evs. handleDownload h a = Some evs \<and>
         map recurrenceRule evs =
           map (\<lambda>c. spec_rrule h (the (day c)) (the (until c)))
             (filter (\<lambda>c. day c \<noteq> None \<and> start c \<noteq> None \<and> c_end c \<noteq> None \<and> until c \<noteq> None)
                (selectedCourses a))) \<and>
      (\<exists>evs. handleDownload0 h a = Some evs \<and>
         map recurrenceRule evs =
           map (\<lambda>c. spec_rrule h (the (day c)) (the (until c)))
             (filter (\<lambda>c. day c \<noteq> None \<and> start c \<noteq> None \<and> c_end c \<noteq> None \<and> until c \<noteq> None)
                (selectedCourses a)))) \<and>
   (\<forall>ds u d' ms'. (\<forall>d \<in> set ds. d \<in> fst ` set spec_bydayCodes) \<and> toUTC h u = DT d' ms' \<longrightarrow>
      spec_rrule h ds u =
        ''FREQ=WEEKLY;BYDAY='' @ join '','' (map (\<lambda>d. the (map_of spec_bydayCodes d)) ds) @
        '';INTERVAL=1;UNTIL='' @
        pad 4 (fst (civil d')) @ pad 2 (fst (snd (civil d'))) @ pad 2 (snd (snd (civil d'))) @
        ''T'' @ pad 2 (ms' div 3600000) @ pad 2 (ms' div 60000 mod 60) @
        pad 2 (ms' div 1000 mod 60) @ ''Z'') \<and>
   (\<forall>ds u. (\<forall>d \<in> set ds. d \<in> fst ` set spec_bydayCodes) \<and> toUTC h u = InvalidDT \<longrightarrow>
      spec_rrule h ds u =
        ''FREQ=WEEKLY;BYDAY='' @ join '','' (map (\<lambda>d. the (map_of spec_bydayCodes d)) ds) @
        '';INTERVAL=1;UNTIL=Invalid DateTime'')"
proof -
  let ?p = "\<lambda>c :: 'a Course. day c \<noteq> None \<and> start c \<noteq> None \<and> c_end c \<noteq> None \<and> until c \<noteq> None"
  let ?g = "\<lambda>c :: 'a Course. spec_rrule h (the (day c)) (the (until c))"
  have 1: "(\<exists>ev. eventLocal h c = Some ev \<and> recurrenceRule ev = spec_rrule h ds u) \<and>
      (\<exists>ev. eventUTC h c = Some ev \<and> recurrenceRule ev = spec_rrule h ds u)"
    if "day c = Some ds \<and> start c = Some s \<and> c_end c = Some e \<and> until c = Some u"
    for ds s e u
    using that eventLocal_rule [of c ds s e u h] eventUTC_rule [of c ds s e u h] by blast
  have l: "\<exists>ev. eventLocal h c = Some ev \<and> recurrenceRule ev = ?g c" if "?p c" for c
    using that eventLocal_rule [of c _ _ _ _ h] by auto
  have u: "\<exists>ev. eventUTC h c = Some ev \<and> recurrenceRule ev = ?g c" if "?p c" for c
    using that eventUTC_rule [of c _ _ _ _ h] by auto
  have 2: "\<exists>evs. handleDownload h a = Some evs \<and>
         map recurrenceRule evs = map ?g (filter ?p (selectedCourses a))"
    if "selectedCourses a \<noteq> []"
  proof -
    have "map recurrenceRule (List.map_filter (eventLocal h) (selectedCourses a)) =
            map ?g (filter ?p (selectedCourses a))"
    proof (rule rules_of_events)
      fix c :: "'a Course"
      assume "\<not> ?p c"
      then show "eventLocal h c = None" by (rule eventLocal_none)
    next
      fix c :: "'a Course"
      assume "?p c"
      then show "\<exists>ev. eventLocal h c = Some ev \<and> recurrenceRule ev = ?g c" by (rule l)
    qed
    with that show ?thesis by (simp add: handleDownload_def)
  qed
  have 3: "\<exists>evs. handleDownload0 h a = Some evs \<and>
         map recurrenceRule evs = map ?g (filter ?p (selectedCourses a))"
    if "selectedCourses a \<noteq> []"
  proof -
    have "map recurrenceRule (List.map_filter (eventUTC h) (selectedCourses a)) =
            map ?g (filter ?p (selectedCourses a))"
    proof (rule rules_of_events)
      fix c :: "'a Course"
      assume "\<not> ?p c"
      then show "eventUTC h c = None" by (rule eventUTC_none)
    next
      fix c :: "'a Course"
      assume "?p c"
      then show "\<exists>ev. eventUTC h c = Some ev \<and> recurrenceRule ev = ?g c" by (rule u)
    qed
    with that show ?thesis by (simp add: handleDownload0_def)
  qed
  have m: "map (\<lambda>d. case map_of spec_bydayCodes d of
                  Some code \<Rightarrow> code
                | None \<Rightarrow> if d \<in> set objectPrototypeKeys then inheritedString h d else []) ds =
           map (\<lambda>d. the (map_of spec_bydayCodes d)) ds"
    if "\<forall>d \<in> set ds. d \<in> fst ` set spec_bydayCodes" for ds
  proof (rule map_cong [OF refl])
    fix d assume "d \<in> set ds"
    with that have "d \<in> fst ` set spec_bydayCodes" by blast
    then obtain code where "map_of spec_bydayCodes d = Some code"
      by (auto simp: spec_bydayCodes_def)
    then show "(case map_of spec_bydayCodes d of
                  Some code \<Rightarrow> code
                | None \<Rightarrow> if d \<in> set objectPrototypeKeys then inheritedString h d else []) =
               the (map_of spec_bydayCodes d)"
      by simp
  qed
  have 4: "spec_rrule h ds u =
        ''FREQ=WEEKLY;BYDAY='' @ join '','' (map (\<lambda>d. the (map_of spec_bydayCodes d)) ds) @
        '';INTERVAL=1;UNTIL='' @
        pad 4 (fst (civil d')) @ pad 2 (fst (snd (civil d'))) @ pad 2 (snd (snd (civil d'))) @
        ''T'' @ pad 2 (ms' div 3600000) @ pad 2 (ms' div 60000 mod 60) @
        pad 2 (ms' div 1000 mod 60) @ ''Z''"
    if "(\<forall>d \<in> set ds. d \<in> fst ` set spec_bydayCodes) \<and> toUTC h u = DT d' ms'"
    for ds u d' ms'
  proof -
    from that have t: "toUTC h u = DT d' ms'" by blast
    from that have n: "\<forall>d \<in> set ds. d \<in> fst ` set spec_bydayCodes" by blast
    show ?thesis unfolding spec_rrule_def m [OF n] t by simp
  qed
  have 5: "spec_rrule h ds u =
        ''FREQ=WEEKLY;BYDAY='' @ join '','' (map (\<lambda>d. the (map_of spec_bydayCodes d)) ds) @
        '';INTERVAL=1;UNTIL=Invalid DateTime''"
    if "(\<forall>d \<in> set ds. d \<in> fst ` set spec_bydayCodes) \<and> toUTC h u = InvalidDT"
    for ds u
  proof -
    from that have t: "toUTC h u = InvalidDT" by blast
    from that have n: "\<forall>d \<in> set ds. d \<in> fst ` set spec_bydayCodes" by blast
    show ?thesis unfolding spec_rrule_def m [OF n] t by simp
  qed
  from 1 2 3 4 5 show ?thesis by blast
qed

theorem recurrence_rule_witness:
  "map_option recurrenceRule (eventLocal demoHost demoSelected) =
     Some ''FREQ=WEEKLY;BYDAY=WE,MO;INTERVAL=1;UNTIL=20250426T035959Z'' \<and>
   map_option recurrenceRule (eventUTC demoHost demoSelected) =
     Some ''FREQ=WEEKLY;BYDAY=WE,MO;INTERVAL=1;UNTIL=20250426T035959Z'' \<and>
   map_option (map recurrenceRule)
       (handleDownload demoHost (demoApp\<lparr>selectedCourses := [demoSelected]\<rparr>)) =
     Some [''FREQ=WEEKLY;BYDAY=WE,MO;INTERVAL=1;UNTIL=20250426T035959Z''] \<and>
   map_option (map recurrenceRule)
       (handleDownload0 demoHost (demoApp\<lparr>selectedCourses := [demoSelected]\<rparr>)) =
     Some [''FREQ=WEEKLY;BYDAY=WE,MO;INTERVAL=1;UNTIL=20250426T035959Z''] \<and>
   toUTC demoHost (DT 20203 86399999) = DT 20204 14399999"
proof -
  let ?a = "demoApp\<lparr>selectedCourses := [demoSelected]\<rparr>"
  have f: "day demoSelected = Some [''Wednesday'', ''Monday''] \<and>
    start demoSelected = Some (DT 20094 32400000) \<and>
    c_end demoSelected = Some (DT 20094 35400000) \<and>
    until demoSelected = Some (DT 20203 86399999)"
    by (simp add: demoSelected_def)
  have s: "selectedCourses ?a \<noteq> []"
    by simp
  have d: "(\<forall>d \<in> set [''Wednesday'', ''Monday'']. d \<in> fst ` set spec_bydayCodes) \<and>
           toUTC demoHost (DT 20203 86399999) = DT 20204 14399999"
    by code_simp
  have r: "''FREQ=WEEKLY;BYDAY='' @
        join '','' (map (\<lambda>d. the (map_of spec_bydayCodes d)) [''Wednesday'', ''Monday'']) @
        '';INTERVAL=1;UNTIL='' @
        pad 4 (fst (civil 20204)) @ pad 2 (fst (snd (civil 20204))) @
        pad 2 (snd (snd (civil 20204))) @
        ''T'' @ pad 2 (14399999 div 3600000) @ pad 2 (14399999 div 60000 mod 60) @
        pad 2 (14399999 div 1000 mod 60) @ ''Z'' =
        ''FREQ=WEEKLY;BYDAY=WE,MO;INTERVAL=1;UNTIL=20250426T035959Z''"
    by code_simp
  have k: "filter (\<lambda>c. day c \<noteq> None \<and> start c \<noteq> None \<and> c_end c \<noteq> None \<and> until c \<noteq> None)
             (selectedCourses ?a) = [demoSelected]"
    "the (day demoSelected) = [''Wednesday'', ''Monday'']"
    "the (until demoSelected) = DT 20203 86399999"
    by (simp_all add: demoSelected_def)
  note t = recurrence_rule [where c = demoSelected and h = demoHost and a = ?a]
  from t d have x: "spec_rrule demoHost [''Wednesday'', ''Monday''] (DT 20203 86399999) =
      ''FREQ=WEEKLY;BYDAY=WE,MO;INTERVAL=1;UNTIL=20250426T035959Z''"
    unfolding r [symmetric] by blast
  from t f have e: "(\<exists>ev. eventLocal demoHost demoSelected = Some ev \<and>
        recurrenceRule ev = spec_rrule demoHost [''Wednesday'', ''Monday''] (DT 20203 86399999)) \<and>
      (\<exists>ev. eventUTC demoHost demoSelected = Some ev \<and>
        recurrenceRule ev = spec_rrule demoHost [''Wednesday'', ''Monday''] (DT 20203 86399999))"
    by blast
  from t s have h: "(\<exists>evs. handleDownload demoHost ?a = Some evs \<and>
         map recurrenceRule evs =
           [spec_rrule demoHost [''Wednesday'', ''Monday''] (DT 20203 86399999)]) \<and>
      (\<exists>evs. handleDownload0 demoHost ?a = Some evs \<and>
         map recurrenceRule evs =
           [spec_rrule demoHost [''Wednesday'', ''Monday''] (DT 20203 86399999)])"
    unfolding k list.map by blast
  from e h d show ?thesis unfolding x by auto
qed

text \<open>
  A course row whose second date is \<open>TBA\<close>, a day row and a time row: the course pushed
  can be selected and has the four fields, its until is not a valid date-time, and the
  rule of its event ends in \<open>UNTIL=Invalid DateTime\<close>.
\<close>

theorem invalid_until_rule_counterexample:
  "assemble demoHost openEndedBody = Inr [openEndedCourse] \<and>
   selectable openEndedCourse \<and>
   day openEndedCourse = Some [''Monday''] \<and>
   until openEndedCourse = Some InvalidDT \<and>
   map_option (map recurrenceRule)
       (handleDownload demoHost
          (demoApp\<lparr>courses := [openEndedCourse], selectedCourses := [openEndedCourse]\<rparr>)) =
     Some [''FREQ=WEEKLY;BYDAY=MO;INTERVAL=1;UNTIL=Invalid DateTime'']"
  by code_simp

text \<open>
  C9, as the code has it. The two files build the same event from a course but for the
  start and the end, which are the UTC components in one file and the local components in
  the other, and their four type flags: an event is built in one file exactly when it is
  built in the other, and the title, the description, the location, the recurrence rule
  and the transparency agree, for one course and for a whole selection.
\<close>

theorem events_differ_in_time_fields:
  "eventUTC h c =
     map_option
       (\<lambda>ev. ev\<lparr>e_start := toICSArrayUTC h (the (start c)),
                 startInputType := Utc, startOutputType := Utc,
                 e_end := toICSArrayUTC h (the (c_end c)),
                 endInputType := Utc, endOutputType := Utc\<rparr>)
       (eventLocal h c) \<and>
   map_option untimed (eventUTC h c) = map_option untimed (eventLocal h c) \<and>
   map_option (map untimed) (handleDownload0 h a) = map_option (map untimed) (handleDownload h a)"
proof -
  have 1: "eventUTC h c =
     map_option
       (\<lambda>ev. ev\<lparr>e_start := toICSArrayUTC h (the (start c)),
                 startInputType := Utc, startOutputType := Utc,
                 e_end := toICSArrayUTC h (the (c_end c)),
                 endInputType := Utc, endOutputType := Utc\<rparr>)
       (eventLocal h c)"
    by (simp add: eventUTC_def eventLocal_def split: option.splits)
  have 2: "map_option untimed (eventUTC h x) = map_option untimed (eventLocal h x)" for x :: "'a Course"
    by (simp add: eventUTC_def eventLocal_def untimed_def split: option.splits)
  have "map untimed (List.map_filter (eventUTC h) xs) =
        map untimed (List.map_filter (eventLocal h) xs)" for xs :: "'a Course list"
  proof (induction xs)
    case Nil
    then show ?case by (simp add: List.map_filter_simps)
  next
    case (Cons x xs)
    from 2 [of x] Cons show ?case
      by (cases "eventUTC h x"; cases "eventLocal h x") (simp_all add: List.map_filter_simps)
  qed
  then have 3: "map_option (map untimed) (handleDownload0 h a) =
                map_option (map untimed) (handleDownload h a)"
    by (simp add: handleDownload0_def handleDownload_def)
  from 1 2 [of c] 3 show ?thesis by (intro conjI)
qed

text \<open>
  The parsed courses of the two files differ on the same rows: on a table with one course
  row and no row under it, the positional handler pushes the bare course and the
  classifying handler pushes nothing.
\<close>

theorem variants_parse_differently_counterexample:
  "fst (parseRows demoHost demoApp bareTable) = demoApp\<lparr>courses := []\<rparr> \<and>
   fst (parseRows0 demoHost demoApp bareTable) =
     demoApp\<lparr>courses := [newCourse 12345 ''Intro to X'' ''Lecture'']\<rparr> \<and>
   fst (parseRows demoHost demoApp bareTable) \<noteq> fst (parseRows0 demoHost demoApp bareTable)"
proof -
  have 1: "fst (parseRows demoHost demoApp bareTable) = demoApp\<lparr>courses := []\<rparr>"
    by code_simp
  have 2: "fst (parseRows0 demoHost demoApp bareTable) =
             demoApp\<lparr>courses := [newCourse 12345 ''Intro to X'' ''Lecture'']\<rparr>"
    by code_simp
  have 3: "demoApp\<lparr>courses := []\<rparr> \<noteq>
           demoApp\<lparr>courses := [newCourse 12345 ''Intro to X'' ''Lecture'']\<rparr>"
    by (simp add: demoApp_def)
  from 1 2 3 show ?thesis by simp
qed

section \<open>The location row\<close>

lemma split_none: "sep \<notin> set b \<Longrightarrow> split sep b = [b]"
  by (induction b) auto

lemma split_once: "sep \<notin> set a \<Longrightarrow> split sep (a @ sep # b) = a # split sep b"
  by (induction a) auto

lemma split_parts_nosep: "p \<in> set (split sep s) \<Longrightarrow> sep \<notin> set p"
proof (induction s arbitrary: p)
  case Nil
  then show ?case by simp
next
  case (Cons c cs)
  obtain q qs where q: "split sep cs = q # qs"
    using split_nonempty [of sep cs] by (cases "split sep cs") auto
  show ?case
  proof (cases "c = sep")
    case True
    with Cons.prems have "p = [] \<or> p \<in> set (split sep cs)" by simp
    with Cons.IH show ?thesis by auto
  next
    case False
    with Cons.prems q have "p = c # q \<or> p \<in> set qs" by simp
    moreover have "sep \<notin> set q" by (rule Cons.IH) (simp add: q)
    moreover have "\<And>x. x \<in> set qs \<Longrightarrow> sep \<notin> set x" by (rule Cons.IH) (simp add: q)
    ultimately show ?thesis using False by auto
  qed
qed

lemma join_cons: "ys \<noteq> [] \<Longrightarrow> join sep (x # ys) = x @ sep @ join sep ys"
  by (cases ys) simp_all

lemma join_snoc: "xs \<noteq> [] \<Longrightarrow> join sep (xs @ [r]) = join sep xs @ sep @ r"
proof (induction xs)
  case Nil
  then show ?case by simp
next
  case (Cons x xs)
  show ?case
  proof (cases "xs = []")
    case True
    then show ?thesis by simp
  next
    case False
    then have "join sep (x # xs @ [r]) = x @ sep @ join sep (xs @ [r])"
      by (simp add: join_cons)
    with False Cons.IH show ?thesis by (simp add: join_cons)
  qed
qed

lemma join_split: "join [sep] (split sep s) = s"
proof (induction s)
  case Nil
  then show ?case by simp
next
  case (Cons c cs)
  obtain q qs where q: "split sep cs = q # qs"
    using split_nonempty [of sep cs] by (cases "split sep cs") auto
  show ?case
  proof (cases "c = sep")
    case True
    then have "join [sep] (split sep (c # cs)) = [] @ [sep] @ join [sep] (split sep cs)"
      by (simp add: q)
    with Cons.IH True show ?thesis by simp
  next
    case False
    have "join [sep] ((c # q) # qs) = c # join [sep] (q # qs)"
      by (cases qs) simp_all
    with False q Cons.IH show ?thesis by simp
  qed
qed

lemma split3_parts:
  assumes "split3 t sep = Inr (l, m, r)"
  shows "t = l @ [sep] @ m @ [sep] @ r" "sep \<notin> set l" "sep \<notin> set r"
    "3 \<le> length (split sep t)"
proof -
  let ?ps = "split sep t"
  from assms have len: "3 \<le> length ?ps" and l: "l = hd ?ps" and r: "r = last ?ps"
    and m: "m = join [sep] (butlast (tl ?ps))"
    by (auto simp: split3_def Let_def split: if_splits)
  show "3 \<le> length (split sep t)" by (rule len)
  from len have ne: "?ps \<noteq> []" "tl ?ps \<noteq> []" "butlast (tl ?ps) \<noteq> []"
    by (auto simp: length_greater_0_conv [symmetric] simp del: length_greater_0_conv)
  have ps: "?ps = l # butlast (tl ?ps) @ [r]"
  proof -
    have "?ps = hd ?ps # tl ?ps" using ne(1) by simp
    also have "tl ?ps = butlast (tl ?ps) @ [last (tl ?ps)]" using ne(2) by simp
    also have "last (tl ?ps) = last ?ps" using ne(2) by (simp add: last_tl)
    finally show ?thesis unfolding l r .
  qed
  have "t = join [sep] ?ps" by (simp add: join_split)
  also have "\<dots> = join [sep] (l # butlast (tl ?ps) @ [r])" using ps by simp
  also have "\<dots> = l @ [sep] @ join [sep] (butlast (tl ?ps) @ [r])"
    by (rule join_cons) simp
  also have "join [sep] (butlast (tl ?ps) @ [r]) = m @ [sep] @ r"
    unfolding m by (rule join_snoc [OF ne(3)])
  finally show "t = l @ [sep] @ m @ [sep] @ r" .
  have "l \<in> set ?ps" unfolding l using ne(1) by simp
  then show "sep \<notin> set l" by (rule split_parts_nosep)
  have "r \<in> set ?ps" unfolding r using ne(1) by simp
  then show "sep \<notin> set r" by (rule split_parts_nosep)
qed

lemma split3_long:
  "3 \<le> length (split sep t) \<Longrightarrow> \<exists>l m r. split3 t sep = Inr (l, m, r)"
  by (simp add: split3_def Let_def)

lemma locate_split:
  "split3 t CHR '','' = Inr (l, m, r) \<Longrightarrow>
     locate pm t = (spread pm)\<lparr>m_campus := Some (trim l), m_location := Some (trim m),
                                m_room := Some (trim r)\<rparr>"
  by (simp add: locate_def)

lemma locate_short:
  assumes "length (split CHR '','' t) < 3"
  shows "locate pm t = (spread pm)\<lparr>m_location := Some t\<rparr>"
proof -
  from assms have "split3 t CHR '','' = Inl Error" by (simp add: split3_def Let_def)
  then show ?thesis by (simp add: locate_def)
qed

lemma finalize_location:
  assumes "finalizeMeeting h st = Inr st1"
  shows "m_location (spread (pendingMeeting st1)) = None \<or>
         m_location (spread (pendingMeeting st1)) = m_location (spread (pendingMeeting st))"
  using finalize_pending [OF assms] by (auto simp: spread_def noMeeting_def)

lemma headerRow_location:
  "headerRow h st row = Inr st' \<Longrightarrow> m_location (spread (pendingMeeting st')) = None"
  by (auto simp: headerRow_def Let_def spread_def noMeeting_def split: sum.splits)

lemma dateRow_location:
  assumes "dateRow h st t = Inr st'"
  shows "m_location (spread (pendingMeeting st')) = None \<or>
         m_location (spread (pendingMeeting st')) = m_location (spread (pendingMeeting st))"
proof -
  from assms obtain st1 where f: "finalizeMeeting h st = Inr st1"
    and l: "m_location (spread (pendingMeeting st')) = m_location (spread (pendingMeeting st1))"
    by (auto simp: dateRow_def Let_def spread_def split: sum.splits)
  from finalize_location [OF f] l show ?thesis by simp
qed

lemma dayRow_location:
  assumes "dayRow h st t = Inr st'"
  shows "m_location (spread (pendingMeeting st')) = None \<or>
         m_location (spread (pendingMeeting st')) = m_location (spread (pendingMeeting st))"
proof -
  define st0 where "st0 = (if m_day (spread (pendingMeeting st)) \<noteq> None \<and>
       timeStrings (spread (pendingMeeting st)) \<noteq> None then finalizeMeeting h st else Inr st)"
  from assms obtain st1 where f: "st0 = Inr st1"
    and st': "st' = st1\<lparr>pendingMeeting :=
        Some ((spread (pendingMeeting st1))\<lparr>m_day := Some (map trim (split CHR '','' t))\<rparr>)\<rparr>"
    unfolding dayRow_def st0_def [symmetric] by (cases st0) simp_all
  from f have "finalizeMeeting h st = Inr st1 \<or> st1 = st"
    unfolding st0_def by (simp split: if_splits)
  then have "m_location (spread (pendingMeeting st1)) = None \<or>
         m_location (spread (pendingMeeting st1)) = m_location (spread (pendingMeeting st))"
    using finalize_location [of h st st1] by blast
  moreover have "m_location (spread (pendingMeeting st')) = m_location (spread (pendingMeeting st1))"
    by (simp add: st' spread_def)
  ultimately show ?thesis by simp
qed

lemma timeRow_location:
  "m_location (spread (pendingMeeting (timeRow st t))) = m_location (spread (pendingMeeting st))"
  by (simp add: timeRow_def spread_def)

lemma location_only_by_location_row:
  assumes "step h st row = Inr st'"
    and "m_location (spread (pendingMeeting st')) \<noteq> None"
    and "m_location (spread (pendingMeeting st')) \<noteq> m_location (spread (pendingMeeting st))"
  shows "isLocationRow (pendingMeeting st) row (trim (join '' '' row)) \<and>
         st' = locationRow st (trim (join '' '' row))"
  using assms(1)
proof (cases rule: step_branches)
  case hdr
  from headerRow_location [OF hdr] assms(2) show ?thesis by simp
next
  case date
  from dateRow_location [OF date] assms(2,3) show ?thesis by simp
next
  case day
  from dayRow_location [OF day] assms(2,3) show ?thesis by simp
next
  case time
  with timeRow_location [of st "trim (join '' '' row)"] assms(3) show ?thesis by simp
next
  case loc
  then show ?thesis by simp
next
  case same
  with assms(3) show ?thesis by simp
qed

text \<open>
  The location branch of the loop. A turn of the loop gives the pending meeting a new
  location only on a row of one cell whose text has a comma, when the room of the pending
  meeting is absent or empty, and the text has an asterisk or a comma followed by digits;
  the new pending meeting is then \<open>locate\<close> of the old one, and such a row that is no date,
  day or time row is always taken. When \<open>split3\<close> succeeds, the text is the left part, a
  comma, the middle part, a comma and the right part, the left and the right part hold no
  comma, and the campus, the location and the room are the three parts trimmed. It
  succeeds exactly when the text has at least three comma-delimited parts. With fewer
  parts the whole text becomes the location, and the campus and the room stay as the
  pending meeting had them: absent when there was no pending meeting.
\<close>

lemma location_row_taken:
  assumes "length row = 1" "CHR '','' \<in> set (trim (join '' '' row))"
    "\<not> present (m_room (spread (pendingMeeting st)))"
    "CHR ''*'' \<in> set (trim (join '' '' row)) \<or> hasRoomNumber (trim (join '' '' row))"
    "\<not> dateRangeRegex (trim (join '' '' row))" "\<not> isDayRow (trim (join '' '' row))"
    "\<not> isTimeRow (trim (join '' '' row))"
  shows "step h st row =
           Inr (st\<lparr>pendingMeeting := Some (locate (pendingMeeting st) (trim (join '' '' row)))\<rparr>)"
proof -
  from assms(2) have "trim (join '' '' row) \<noteq> []" by auto
  with assms show ?thesis
    by (simp add: step_def isLocationRow_def locationRow_def Let_def)
qed

lemma location_row:
  "(\<forall>st'. step h st row = Inr st' \<and>
          m_location (spread (pendingMeeting st')) \<noteq> None \<and>
          m_location (spread (pendingMeeting st')) \<noteq> m_location (spread (pendingMeeting st)) \<longrightarrow>
      length row = 1 \<and> CHR '','' \<in> set (trim (join '' '' row)) \<and>
      \<not> present (m_room (spread (pendingMeeting st))) \<and>
      (CHR ''*'' \<in> set (trim (join '' '' row)) \<or> hasRoomNumber (trim (join '' '' row))) \<and>
      st' = st\<lparr>pendingMeeting := Some (locate (pendingMeeting st) (trim (join '' '' row)))\<rparr>) \<and>
   (\<forall>l m r. split3 t CHR '','' = Inr (l, m, r) \<longrightarrow>
      t = l @ '','' @ m @ '','' @ r \<and> CHR '','' \<notin> set l \<and> CHR '','' \<notin> set r \<and>
      locate pm t = (spread pm)\<lparr>m_campus := Some (trim l), m_location := Some (trim m),
                                 m_room := Some (trim r)\<rparr>) \<and>
   (3 \<le> length (split CHR '','' t) \<longrightarrow> (\<exists>l m r. split3 t CHR '','' = Inr (l, m, r))) \<and>
   (length (split CHR '','' t) < 3 \<longrightarrow>
      split3 t CHR '','' = Inl Error \<and>
      locate pm t = (spread pm)\<lparr>m_location := Some t\<rparr> \<and>
      m_campus (locate pm t) = m_campus (spread pm) \<and>
      m_room (locate pm t) = m_room (spread pm) \<and>
      (pm = None \<longrightarrow> m_campus (locate pm t) = None \<and> m_room (locate pm t) = None))"
proof -
  have 1: "length row = 1 \<and> CHR '','' \<in> set (trim (join '' '' row)) \<and>
      \<not> present (m_room (spread (pendingMeeting st))) \<and>
      (CHR ''*'' \<in> set (trim (join '' '' row)) \<or> hasRoomNumber (trim (join '' '' row))) \<and>
      st' = st\<lparr>pendingMeeting := Some (locate (pendingMeeting st) (trim (join '' '' row)))\<rparr>"
    if "step h st row = Inr st' \<and>
          m_location (spread (pendingMeeting st')) \<noteq> None \<and>
          m_location (spread (pendingMeeting st')) \<noteq> m_location (spread (pendingMeeting st))"
    for st'
    using location_only_by_location_row [of h st row st'] that
    by (simp add: isLocationRow_def locationRow_def)
  have 2: "t = l @ '','' @ m @ '','' @ r \<and> CHR '','' \<notin> set l \<and> CHR '','' \<notin> set r \<and>
      locate pm t = (spread pm)\<lparr>m_campus := Some (trim l), m_location := Some (trim m),
                                 m_room := Some (trim r)\<rparr>"
    if "split3 t CHR '','' = Inr (l, m, r)" for l m r
    using split3_parts(1-3) [OF that] locate_split [OF that, of pm] by simp
  have 3: "\<exists>l m r. split3 t CHR '','' = Inr (l, m, r)" if "3 \<le> length (split CHR '','' t)"
    using that by (rule split3_long)
  have 4: "split3 t CHR '','' = Inl Error \<and>
      locate pm t = (spread pm)\<lparr>m_location := Some t\<rparr> \<and>
      m_campus (locate pm t) = m_campus (spread pm) \<and>
      m_room (locate pm t) = m_room (spread pm) \<and>
      (pm = None \<longrightarrow> m_campus (locate pm t) = None \<and> m_room (locate pm t) = None)"
    if "length (split CHR '','' t) < 3"
    using that locate_short [OF that, of pm] locate_short [OF that, of None]
    by (auto simp: split3_def Let_def spread_def noMeeting_def)
  from 1 2 3 4 show ?thesis by blast
qed

lemma location_row_example:
  "step demoHost initState [''Main*, Hall 1, 101''] =
     Inr (initState\<lparr>pendingMeeting :=
            Some (noMeeting\<lparr>m_campus := Some ''Main*'', m_location := Some ''Hall 1'',
                            m_room := Some ''101''\<rparr>)\<rparr>) \<and>
   split3 ''Main*, Hall 1, 101'' CHR '','' = Inr (''Main*'', '' Hall 1'', '' 101'') \<and>
   length [''Main*, Hall 1, 101''] = 1 \<and>
   (CHR ''*'' \<in> set (trim (join '' '' [''Main*, Hall 1, 101''])) \<or>
    hasRoomNumber (trim (join '' '' [''Main*, Hall 1, 101'']))) \<and>
   length (split CHR '','' ''Smith*, J'') = 2 \<and>
   locate None ''Smith*, J'' = noMeeting\<lparr>m_location := Some ''Smith*, J''\<rparr>"
proof -
  let ?st' = "initState\<lparr>pendingMeeting :=
            Some (noMeeting\<lparr>m_campus := Some ''Main*'', m_location := Some ''Hall 1'',
                            m_room := Some ''101''\<rparr>)\<rparr> :: int pstate"
  have s: "step demoHost initState [''Main*, Hall 1, 101''] = Inr ?st'"
    by code_simp
  have c: "m_location (spread (pendingMeeting ?st')) \<noteq> None"
    "m_location (spread (pendingMeeting ?st')) \<noteq>
       m_location (spread (pendingMeeting (initState :: int pstate)))"
    by (simp_all add: spread_def initState_def noMeeting_def)
  have p: "split3 ''Main*, Hall 1, 101'' CHR '','' = Inr (''Main*'', '' Hall 1'', '' 101'')"
    by code_simp
  have n: "length (split CHR '','' ''Smith*, J'') = 2"
    by code_simp
  have n3: "length (split CHR '','' ''Smith*, J'') < 3"
    by (simp add: n)
  note t = location_row [of demoHost initState "[''Main*, Hall 1, 101'']" "''Smith*, J''" None]
  from t s c have o: "length [''Main*, Hall 1, 101''] = 1 \<and>
      (CHR ''*'' \<in> set (trim (join '' '' [''Main*, Hall 1, 101''])) \<or>
       hasRoomNumber (trim (join '' '' [''Main*, Hall 1, 101''])))"
    by blast
  from t n3
  have "locate None ''Smith*, J'' = (spread None)\<lparr>m_location := Some ''Smith*, J''\<rparr>"
    by blast
  then have l: "locate None ''Smith*, J'' = noMeeting\<lparr>m_location := Some ''Smith*, J''\<rparr>"
    by (simp add: spread_def)
  from s p n l o show ?thesis by (intro conjI) simp_all
qed

text \<open>
  C6. The comment above the location branch says a row is a location row only if the room
  has not been set yet (\<open>pendingMeeting.room\<close> is \<open>undefined\<close>); the test is
  \<open>!pendingMeeting?.room\<close>, which an empty room passes too. A location row whose last part
  is empty sets the campus, the location and an empty room. The next row of one cell,
  with an asterisk and two comma-delimited parts, is then taken as a location row though
  the room is set: its text becomes the location, and the campus of the first row and the
  empty room stay. After a room that is not empty the same row is skipped.
\<close>

theorem second_location_row_after_empty_room:
  "steps demoHost initState [[''Main*, Hall 1,''], [''Annex*, TBA'']] =
     Inr (initState\<lparr>pendingMeeting :=
            Some (noMeeting\<lparr>m_campus := Some ''Main*'', m_location := Some ''Annex*, TBA'',
                            m_room := Some []\<rparr>)\<rparr>) \<and>
   step demoHost initState [''Main*, Hall 1,''] =
     Inr (initState\<lparr>pendingMeeting := Some roomlessMeeting\<rparr>) \<and>
   m_room roomlessMeeting = Some [] \<and>
   isLocationRow (Some roomlessMeeting) [''Annex*, TBA''] ''Annex*, TBA'' \<and>
   step demoHost (initState\<lparr>pendingMeeting := Some roomlessMeeting\<rparr>) [''Annex*, TBA''] =
     Inr (initState\<lparr>pendingMeeting := Some (locate (Some roomlessMeeting) ''Annex*, TBA'')\<rparr>) \<and>
   length (split CHR '','' ''Annex*, TBA'') = 2 \<and>
   m_location (locate (Some roomlessMeeting) ''Annex*, TBA'') = Some ''Annex*, TBA'' \<and>
   m_campus (locate (Some roomlessMeeting) ''Annex*, TBA'') = Some ''Main*'' \<and>
   m_room (locate (Some roomlessMeeting) ''Annex*, TBA'') = Some [] \<and>
   step demoHost
       (initState\<lparr>pendingMeeting := Some (roomlessMeeting\<lparr>m_room := Some ''101''\<rparr>)\<rparr>)
       [''Annex*, TBA''] =
     Inr (initState\<lparr>pendingMeeting := Some (roomlessMeeting\<lparr>m_room := Some ''101''\<rparr>)\<rparr>)"
  by code_simp

section \<open>The course row of six cells\<close>

text \<open>
  The course row of six cells in the classifying handler: the fifth and the sixth cell are
  joined before the split at the dash, the number comes from the fourth cell, the title
  and the details from the first and the second.
\<close>

lemma header_six_cells:
  assumes "c1 \<noteq> ''Title''" "finalizeMeeting h st = Inr st1"
  shows "step h st [c1, c2, c3, c4, c5, c6] =
           Inr (st1\<lparr>baseCourse := Some \<lparr>b_crn = Number h c4, b_title = c1, b_details = c2\<rparr>,
                     pendingMeeting := None,
                     currentDateStrings := map trim (take 2 (split CHR ''-'' (c5 @ c6)))\<rparr>)"
  using assms by (simp add: step_def headerRow_def split2_def)

lemma two_halves:
  assumes "CHR ''-'' \<notin> set a" "CHR ''-'' \<notin> set b"
  shows "map trim (take 2 (split CHR ''-'' (a @ ''-'' @ b))) = [trim a, trim b]"
  using assms by (simp add: split_once split_none)

text \<open>
  C5. On a course row of six cells the positional handler reads the date strings from the
  fifth cell alone (it writes the sixth cell and \<open>undefined\<close> to the sixth cell), where the
  classifying handler reads them from the fifth and the sixth cell joined.
\<close>

theorem positional_six_cells:
  "step0 demoHost initState0 sixCells =
     Inr \<lparr>currentCourse = Some (newCourse 12345 ''Intro to X'' ''Lecture''),
          currentDateStrings0 = [''01/06/2025'', []], parsedCourses0 = [], p_i = 0\<rparr> \<and>
   step demoHost initState sixCells =
     Inr (initState\<lparr>baseCourse :=
                      Some \<lparr>b_crn = 12345, b_title = ''Intro to X'', b_details = ''Lecture''\<rparr>,
                    currentDateStrings := [''01/06/2025'', ''04/25/2025'']\<rparr>)"
  by code_simp

end
